theory Spec2Isabelle
  imports Main "HOL-Library.Word"
begin

unbundle bit_operations_syntax

section \<open>Machine types\<close>

text \<open>
  The guest-memory core of \<^verbatim>\<open>virt/kvm/kvm_main.c\<close>. The C integer types are words:
  \<^verbatim>\<open>u32\<close> is 32 bits, \<^verbatim>\<open>u64\<close>, \<^verbatim>\<open>gfn_t\<close>, \<^verbatim>\<open>gpa_t\<close> and \<^verbatim>\<open>pfn_t\<close> are 64 bits, and
  \<^verbatim>\<open>unsigned long\<close> and \<^verbatim>\<open>long\<close> are 64 bits (an LP64 build). Arithmetic on them wraps.
  An \<^verbatim>\<open>int\<close> is a 32-bit word read with \<open>sint\<close> where the code reads its sign.
\<close>

type_synonym u32 = "32 word"
type_synonym u64 = "64 word"
type_synonym ulong = "64 word"
type_synonym long = "64 word"
type_synonym cint = "32 word"
type_synonym gfn_t = "64 word"
type_synonym gpa_t = "64 word"
type_synonym pfn_t = "64 word"

text \<open>
  The error numbers the functions of the file return (negated, in C). A function that
  returns \<^verbatim>\<open>0\<close> or \<^verbatim>\<open>-E...\<close> is modelled with \<open>errno option\<close> (\<open>None\<close> is \<^verbatim>\<open>0\<close>) or with
  a sum whose \<open>Inl\<close> carries the error. \<open>EARCH\<close> stands for whatever nonzero value an
  architecture hook returns.
\<close>

datatype errno = EINVAL | EEXIST | ENOMEM | ENOENT | EFAULT | EOPNOTSUPP | ENOSPC | EARCH nat

text \<open>\<^verbatim>\<open>BUG_ON\<close> stops the kernel: it is a result of its own, not an error number.\<close>

datatype fatal = BUG

section \<open>The invalidation state (mmu notifier sequence and count)\<close>

text \<open>
  \<^verbatim>\<open>kvm->mmu_notifier_seq\<close> is an \<^verbatim>\<open>unsigned long\<close>, \<^verbatim>\<open>kvm->mmu_notifier_count\<close> a
  \<^verbatim>\<open>long\<close>; both are guarded by \<^verbatim>\<open>kvm->mmu_lock\<close>.
\<close>

record mmu_notifier_state =
  mmu_notifier_seq :: ulong
  mmu_notifier_count :: long

text \<open>
  \<^verbatim>\<open>kvm_mmu_notifier_invalidate_range_start\<close>: under the lock the count is incremented; the
  unmapping of the range and the TLB flush that follow act on the shadow page tables, which
  are architecture state outside this file, and leave the two counters alone.
\<close>

definition kvm_mmu_notifier_invalidate_range_start :: "mmu_notifier_state \<Rightarrow> mmu_notifier_state" where
  "kvm_mmu_notifier_invalidate_range_start kvm =
     kvm\<lparr>mmu_notifier_count := mmu_notifier_count kvm + 1\<rparr>"

text \<open>
  \<^verbatim>\<open>kvm_mmu_notifier_invalidate_range_end\<close> is a straight line of operations on memory:
  it takes the lock, stores the incremented sequence, executes \<^verbatim>\<open>smp_wmb()\<close>, stores the
  decremented count and drops the lock. An operation is a value of \<open>mem_op\<close>; a store
  names the counter and the value written.
\<close>

datatype counter = Seq | Count

datatype mem_op = Spin_lock | Store counter ulong | Smp_wmb | Spin_unlock

text \<open>What an operation does to the two counters on the processor that executes it.\<close>

fun exec_op :: "mem_op \<Rightarrow> mmu_notifier_state \<Rightarrow> mmu_notifier_state" where
  "exec_op (Store Seq v) kvm = kvm\<lparr>mmu_notifier_seq := v\<rparr>"
| "exec_op (Store Count v) kvm = kvm\<lparr>mmu_notifier_count := v\<rparr>"
| "exec_op Spin_lock kvm = kvm"
| "exec_op Smp_wmb kvm = kvm"
| "exec_op Spin_unlock kvm = kvm"

text \<open>
  The result is the operations in program order, and the outcome: \<open>Inl BUG\<close> when
  \<^verbatim>\<open>BUG_ON(kvm->mmu_notifier_count < 0)\<close> fires, the state after the two stores otherwise.
  Each store writes the value read under the lock plus or minus one. The function is
  \<^verbatim>\<open>void\<close>: it has no error return.
\<close>

definition kvm_mmu_notifier_invalidate_range_end ::
  "mmu_notifier_state \<Rightarrow> mem_op list \<times> (fatal + mmu_notifier_state)" where
  "kvm_mmu_notifier_invalidate_range_end kvm =
     (let inc = Store Seq (mmu_notifier_seq kvm + 1);
          k1 = exec_op inc kvm;
          dec = Store Count (mmu_notifier_count k1 - 1);
          k2 = exec_op dec k1
      in ([Spin_lock, inc, Smp_wmb, dec, Spin_unlock],
          if mmu_notifier_count k2 <s 0 then Inl BUG else Inr k2))"

subsection \<open>When a store becomes visible to another processor\<close>

text \<open>
  Modelled from the spec: \<^verbatim>\<open>smp_wmb\<close> of \<^verbatim>\<open>asm/barrier.h\<close>, which is not among the sources.
  The translators read the two counters without the lock, and the order they rely on is
  ``implemented via memory-ordering fences, not locks''. So the stores of one processor
  may become visible to another in an order that is not the program order, within these
  limits: two stores to the same counter keep their order, and a write fence keeps every
  store issued before it ahead of every store issued after it. Taking and dropping the
  lock orders critical sections of the lock, not the two stores of one critical section
  as a reader without the lock sees them.

  \<open>epochs\<close> cuts the stores of a program at its write fences; \<open>epoch_orders\<close> lists the
  orders in which the stores of one piece may become visible (its permutations that keep
  the order per counter); \<open>visible_orders\<close> lists the orders for the whole program, one
  piece after the other; \<open>visible_states\<close> lists the states a reader can see when the
  stores become visible in a given order, starting with the state before any of them.
\<close>

fun epochs :: "mem_op list \<Rightarrow> (counter \<times> ulong) list list" where
  "epochs [] = [[]]"
| "epochs (Smp_wmb # ops) = [] # epochs ops"
| "epochs (Store c v # ops) = ((c, v) # hd (epochs ops)) # tl (epochs ops)"
| "epochs (Spin_lock # ops) = epochs ops"
| "epochs (Spin_unlock # ops) = epochs ops"

definition issued_stores :: "mem_op list \<Rightarrow> (counter \<times> ulong) list" where
  "issued_stores ops = concat (epochs ops)"

fun insert_everywhere :: "'a \<Rightarrow> 'a list \<Rightarrow> 'a list list" where
  "insert_everywhere x [] = [[x]]"
| "insert_everywhere x (y # ys) = (x # y # ys) # map ((#) y) (insert_everywhere x ys)"

fun permutations :: "'a list \<Rightarrow> 'a list list" where
  "permutations [] = [[]]"
| "permutations (x # xs) = concat (map (insert_everywhere x) (permutations xs))"

definition same_counter_in_order ::
  "(counter \<times> ulong) list \<Rightarrow> (counter \<times> ulong) list \<Rightarrow> bool" where
  "same_counter_in_order xs ys =
     list_all (\<lambda>c. filter (\<lambda>s. fst s = c) ys = filter (\<lambda>s. fst s = c) xs) [Seq, Count]"

definition epoch_orders :: "(counter \<times> ulong) list \<Rightarrow> (counter \<times> ulong) list list" where
  "epoch_orders xs = filter (same_counter_in_order xs) (permutations xs)"

definition visible_orders :: "mem_op list \<Rightarrow> (counter \<times> ulong) list list" where
  "visible_orders ops = map concat (product_lists (map epoch_orders (epochs ops)))"

fun visible_states ::
  "mmu_notifier_state \<Rightarrow> (counter \<times> ulong) list \<Rightarrow> mmu_notifier_state list" where
  "visible_states kvm [] = [kvm]"
| "visible_states kvm ((c, v) # ord) = kvm # visible_states (exec_op (Store c v) kvm) ord"

section \<open>Memory slots and the slot table\<close>

text \<open>
  Modelled from the spec: the constants of \<^verbatim>\<open>asm/page.h\<close>, \<^verbatim>\<open>linux/kvm.h\<close> and
  \<^verbatim>\<open>linux/kvm_host.h\<close>, which are not among the sources. Pages are 4096 bytes; the slot
  flags are log-dirty (bit 0), read-only (bit 1) and invalid-during-transition (bit 16);
  a slot holds at most \<open>2^31 - 1\<close> pages.
\<close>

definition PAGE_SHIFT :: nat where
  "PAGE_SHIFT = 12"

definition PAGE_SIZE :: u64 where
  "PAGE_SIZE = 4096"

definition KVM_MEM_LOG_DIRTY_PAGES :: u32 where
  "KVM_MEM_LOG_DIRTY_PAGES = 1"

definition KVM_MEM_READONLY :: u32 where
  "KVM_MEM_READONLY = 2"

definition KVM_MEMSLOT_INVALID :: u32 where
  "KVM_MEMSLOT_INVALID = 65536"

definition KVM_MEM_MAX_NR_PAGES :: ulong where
  "KVM_MEM_MAX_NR_PAGES = 2147483647"

text \<open>
  The constants that differ between architectures are parameters: the number of slots a
  user may name, the size of the slot array (user and private slots), whether the
  architecture defines \<^verbatim>\<open>KVM_CAP_READONLY_MEM\<close>, and the start of the kernel's part of
  the address space, \<^verbatim>\<open>PAGE_OFFSET\<close>.
\<close>

record kvm_config =
  KVM_USER_MEM_SLOTS :: nat
  KVM_MEM_SLOTS_NUM :: nat
  KVM_CAP_READONLY_MEM :: bool
  PAGE_OFFSET :: ulong

text \<open>
  \<^verbatim>\<open>struct kvm_memory_slot\<close>. The field \<^verbatim>\<open>id\<close> is \<open>id_slot\<close> here. The dirty bitmap is
  an array of \<^verbatim>\<open>unsigned long\<close> owned by the slot, \<open>None\<close> for the \<^verbatim>\<open>NULL\<close> pointer; the model
  holds it by value, so that copying a slot copies the pointer's target as it is at that
  moment, and releasing memory (\<^verbatim>\<open>kfree\<close>, \<^verbatim>\<open>kvm_kvfree\<close>) has no effect that the model can
  show. The architecture's private part (\<^verbatim>\<open>arch\<close>) is left out.
\<close>

record kvm_memory_slot =
  base_gfn :: gfn_t
  npages :: ulong
  dirty_bitmap :: "ulong list option"
  userspace_addr :: ulong
  flags :: u32
  id_slot :: nat

text \<open>
  \<^verbatim>\<open>struct kvm_memslots\<close>: the generation, the slot array (of \<^verbatim>\<open>KVM_MEM_SLOTS_NUM\<close>
  entries) and the table from a slot's id to its index in the array.
\<close>

record kvm_memslots =
  generation :: u64
  memslots :: "kvm_memory_slot list"
  id_to_index :: "nat list"

text \<open>
  \<^verbatim>\<open>struct kvm_userspace_memory_region\<close>, the request. Its fields \<^verbatim>\<open>flags\<close> and
  \<^verbatim>\<open>userspace_addr\<close> are \<open>mem_flags\<close> and \<open>mem_userspace_addr\<close> here (the code's variable
  is \<^verbatim>\<open>mem\<close>).
\<close>

record kvm_userspace_memory_region =
  slot :: u32
  mem_flags :: u32
  guest_phys_addr :: u64
  memory_size :: u64
  mem_userspace_addr :: u64

datatype kvm_mr_change = KVM_MR_CREATE | KVM_MR_DELETE | KVM_MR_MOVE | KVM_MR_FLAGS_ONLY

text \<open>
  Modelled from the spec: the accessors of \<^verbatim>\<open>linux/kvm_host.h\<close>, which is not among the
  sources. \<^verbatim>\<open>id_to_memslot\<close> reads the array at the index the id table gives;
  \<^verbatim>\<open>kvm_for_each_memslot\<close> walks the array from its start and stops at the first slot
  with no pages (a slot is present when its page count is positive, and the array is
  sorted by descending page count); \<^verbatim>\<open>search_memslots\<close> returns the first slot of that
  walk whose frame range holds the frame, here as its index in the array;
  \<^verbatim>\<open>kvm_dirty_bitmap_bytes\<close> is the page count rounded up to a multiple of the bits of a
  long, in bytes; \<^verbatim>\<open>__gfn_to_hva_memslot\<close> is the slot's host base plus the frame's offset
  in bytes.
\<close>

definition id_to_memslot :: "kvm_memslots \<Rightarrow> nat \<Rightarrow> kvm_memory_slot" where
  "id_to_memslot slots i = memslots slots ! (id_to_index slots ! i)"

definition kvm_for_each_memslot :: "kvm_memslots \<Rightarrow> kvm_memory_slot list" where
  "kvm_for_each_memslot slots = takeWhile (\<lambda>s. npages s \<noteq> 0) (memslots slots)"

fun search_memslots_from :: "kvm_memory_slot list \<Rightarrow> nat \<Rightarrow> gfn_t \<Rightarrow> nat option" where
  "search_memslots_from [] i gfn = None"
| "search_memslots_from (s # ss) i gfn =
     (if npages s = 0 then None
      else if base_gfn s \<le> gfn \<and> gfn < base_gfn s + npages s then Some i
      else search_memslots_from ss (Suc i) gfn)"

definition search_memslots :: "kvm_memslots \<Rightarrow> gfn_t \<Rightarrow> nat option" where
  "search_memslots slots gfn = search_memslots_from (memslots slots) 0 gfn"

definition kvm_dirty_bitmap_bytes :: "kvm_memory_slot \<Rightarrow> ulong" where
  "kvm_dirty_bitmap_bytes memslot = ((npages memslot + 63) AND NOT 63) div 8"

definition gfn_to_hva_memslot' :: "kvm_memory_slot \<Rightarrow> gfn_t \<Rightarrow> ulong" where
  "gfn_to_hva_memslot' s gfn = userspace_addr s + (gfn - base_gfn s) * PAGE_SIZE"

text \<open>
  A C name that starts with two underscores is written with a prime at its end:
  \<open>gfn_to_hva_memslot'\<close> is \<^verbatim>\<open>__gfn_to_hva_memslot\<close>.
\<close>

subsection \<open>Sorting and publishing\<close>

text \<open>\<^verbatim>\<open>cmp_memslot\<close>: the larger slot comes first.\<close>

definition cmp_memslot :: "kvm_memory_slot \<Rightarrow> kvm_memory_slot \<Rightarrow> int" where
  "cmp_memslot s1 s2 =
     (if npages s1 < npages s2 then 1
      else if npages s1 > npages s2 then -1
      else 0)"

text \<open>
  Modelled from the spec: \<^verbatim>\<open>sort\<close> of \<^verbatim>\<open>lib/sort.c\<close>, which is not among the sources. The
  table is re-sorted with the comparison function it is given; the model is an insertion
  sort. The kernel's sort is a heap sort, which may leave slots of equal size in another
  order; nothing below depends on the order of equal elements.
\<close>

fun insert_cmp :: "('a \<Rightarrow> 'a \<Rightarrow> int) \<Rightarrow> 'a \<Rightarrow> 'a list \<Rightarrow> 'a list" where
  "insert_cmp c x [] = [x]"
| "insert_cmp c x (y # ys) = (if c x y \<le> 0 then x # y # ys else y # insert_cmp c x ys)"

definition sort_cmp :: "('a \<Rightarrow> 'a \<Rightarrow> int) \<Rightarrow> 'a list \<Rightarrow> 'a list" where
  "sort_cmp c xs = foldr (insert_cmp c) xs []"

text \<open>\<^verbatim>\<open>sort_memslots\<close>: sort by size, then rebuild the id table.\<close>

definition sort_memslots :: "kvm_config \<Rightarrow> kvm_memslots \<Rightarrow> kvm_memslots" where
  "sort_memslots cfg slots =
     (let ms = sort_cmp cmp_memslot (memslots slots)
      in slots\<lparr>memslots := ms,
               id_to_index := fold (\<lambda>i tbl. tbl[id_slot (ms ! i) := i])
                                [0 ..< KVM_MEM_SLOTS_NUM cfg] (id_to_index slots)\<rparr>)"

text \<open>
  \<^verbatim>\<open>update_memslots\<close>: write the new slot over the one with its id, re-sort when the size
  changed, and stamp the table with the last generation plus one.
\<close>

definition update_memslots ::
  "kvm_config \<Rightarrow> kvm_memslots \<Rightarrow> kvm_memory_slot option \<Rightarrow> u64 \<Rightarrow> kvm_memslots" where
  "update_memslots cfg slots new last_generation =
     (let slots' =
        (case new of
           None \<Rightarrow> slots
         | Some n \<Rightarrow>
             (let idx = id_to_index slots ! id_slot n;
                  np = npages (memslots slots ! idx);
                  slots1 = slots\<lparr>memslots := (memslots slots)[idx := n]\<rparr>
              in if npages n \<noteq> np then sort_memslots cfg slots1 else slots1))
      in slots'\<lparr>generation := last_generation + 1\<rparr>)"

text \<open>
  \<^verbatim>\<open>install_new_memslots\<close>: the state is the active table \<^verbatim>\<open>kvm->memslots\<close>. The function
  stamps the new table from the active table's generation, makes it the active one and
  returns the table that was active. The result is the pair of the new active table and
  the returned old one.
\<close>

definition install_new_memslots ::
  "kvm_config \<Rightarrow> kvm_memslots \<Rightarrow> kvm_memslots \<Rightarrow> kvm_memory_slot option
     \<Rightarrow> kvm_memslots \<times> kvm_memslots" where
  "install_new_memslots cfg kvm slots new =
     (update_memslots cfg slots new (generation kvm), kvm)"

subsection \<open>The set-region operation\<close>

text \<open>\<^verbatim>\<open>check_memory_region_flags\<close>.\<close>

definition check_memory_region_flags ::
  "kvm_config \<Rightarrow> kvm_userspace_memory_region \<Rightarrow> errno option" where
  "check_memory_region_flags cfg mem =
     (let valid_flags =
            (if KVM_CAP_READONLY_MEM cfg then KVM_MEM_LOG_DIRTY_PAGES OR KVM_MEM_READONLY
             else KVM_MEM_LOG_DIRTY_PAGES)
      in if mem_flags mem AND NOT valid_flags \<noteq> 0 then Some EINVAL else None)"

text \<open>
  What \<^verbatim>\<open>__kvm_set_memory_region\<close> calls outside this file answers through these fields,
  one per call site: \<^verbatim>\<open>access_ok\<close> on the host range, the architecture's
  \<^verbatim>\<open>kvm_arch_create_memslot\<close> and \<^verbatim>\<open>kvm_arch_prepare_memory_region\<close> (\<open>None\<close> is the
  return value 0), whether \<^verbatim>\<open>kvm_kvzalloc\<close> and \<^verbatim>\<open>kmemdup\<close> return memory, and
  \<^verbatim>\<open>kvm_iommu_map_pages\<close>. The function calls \<^verbatim>\<open>kmemdup\<close> at most once on any path.
\<close>

record set_region_env =
  access_ok :: bool
  kvm_arch_create_memslot :: "errno option"
  kvm_kvzalloc_ok :: bool
  kmemdup_ok :: bool
  kvm_arch_prepare_memory_region :: "errno option"
  kvm_iommu_map_pages :: "errno option"

text \<open>
  The general sanity checks of \<^verbatim>\<open>__kvm_set_memory_region\<close> (lines 757 to 785), in the
  order of the code; each failure is \<^verbatim>\<open>-EINVAL\<close>.
\<close>

definition region_sanity_checks ::
  "kvm_config \<Rightarrow> set_region_env \<Rightarrow> kvm_userspace_memory_region \<Rightarrow> errno option" where
  "region_sanity_checks cfg env mem =
     (case check_memory_region_flags cfg mem of
        Some e \<Rightarrow> Some e
      | None \<Rightarrow>
          if memory_size mem AND (PAGE_SIZE - 1) \<noteq> 0 then Some EINVAL
          else if guest_phys_addr mem AND (PAGE_SIZE - 1) \<noteq> 0 then Some EINVAL
          else if unat (slot mem) < KVM_USER_MEM_SLOTS cfg \<and>
                  (mem_userspace_addr mem AND (PAGE_SIZE - 1) \<noteq> 0 \<or> \<not> access_ok env)
               then Some EINVAL
          else if unat (slot mem) \<ge> KVM_MEM_SLOTS_NUM cfg then Some EINVAL
          else if guest_phys_addr mem + memory_size mem < guest_phys_addr mem then Some EINVAL
          else if drop_bit PAGE_SHIFT (memory_size mem) > KVM_MEM_MAX_NR_PAGES then Some EINVAL
          else None)"

text \<open>
  The classification (lines 797 to 819), from the old slot, the request's host address and
  the candidate slot \<open>new\<close>. \<open>Inl EINVAL\<close> is a rejected request, \<open>Inr None\<close> the request
  that changes nothing (\<^verbatim>\<open>r = 0; goto out\<close>), \<open>Inr (Some change)\<close> a classified one.
\<close>

definition classify_change ::
  "kvm_memory_slot \<Rightarrow> u64 \<Rightarrow> kvm_memory_slot \<Rightarrow> errno + kvm_mr_change option" where
  "classify_change old uaddr new =
     (if npages new \<noteq> 0 then
        (if npages old = 0 then Inr (Some KVM_MR_CREATE)
         else if uaddr \<noteq> userspace_addr old \<or> npages new \<noteq> npages old \<or>
                 (flags new XOR flags old) AND KVM_MEM_READONLY \<noteq> 0
              then Inl EINVAL
         else if base_gfn new \<noteq> base_gfn old then Inr (Some KVM_MR_MOVE)
         else if flags new \<noteq> flags old then Inr (Some KVM_MR_FLAGS_ONLY)
         else Inr None)
      else if npages old \<noteq> 0 then Inr (Some KVM_MR_DELETE)
      else Inl EINVAL)"

text \<open>
  The overlap check (lines 821 to 832): some slot of the walk, a user slot other than the
  request's, whose range is neither wholly above nor wholly below the new one.
\<close>

definition region_overlaps ::
  "kvm_config \<Rightarrow> kvm_memslots \<Rightarrow> nat \<Rightarrow> gfn_t \<Rightarrow> ulong \<Rightarrow> bool" where
  "region_overlaps cfg kvm mem_slot bgfn np =
     list_ex (\<lambda>s. \<not> (id_slot s \<ge> KVM_USER_MEM_SLOTS cfg \<or> id_slot s = mem_slot) \<and>
                  \<not> (bgfn + np \<le> base_gfn s \<or> bgfn \<ge> base_gfn s + npages s))
       (kvm_for_each_memslot kvm)"

text \<open>
  \<^verbatim>\<open>kvm_create_dirty_bitmap\<close> allocates twice the bytes of the bitmap, zeroed (the build
  is not \<^verbatim>\<open>CONFIG_S390\<close>): this is the array of longs it yields.
\<close>

definition kvm_create_dirty_bitmap :: "kvm_memory_slot \<Rightarrow> ulong list" where
  "kvm_create_dirty_bitmap memslot =
     replicate (unat (2 * kvm_dirty_bitmap_bytes memslot) div 8) 0"

text \<open>
  The transitional table of a delete or a move (lines 854 to 861): a copy of the active
  table in which the slot of the request's id is marked invalid.
\<close>

definition mark_slot_invalid :: "kvm_memslots \<Rightarrow> nat \<Rightarrow> kvm_memslots" where
  "mark_slot_invalid slots i =
     (let idx = id_to_index slots ! i;
          s = memslots slots ! idx
      in slots\<lparr>memslots := (memslots slots)[idx := s\<lparr>flags := flags s OR KVM_MEMSLOT_INVALID\<rparr>]\<rparr>)"

text \<open>
  The rest of \<^verbatim>\<open>__kvm_set_memory_region\<close> (lines 834 to 929) for a classified request
  that passed the overlap check. The result is the return value and the active table
  after the call. On the error paths the code frees what it allocated (\<^verbatim>\<open>out_slots\<close>,
  \<^verbatim>\<open>out_free\<close>); it does not publish a table there.
\<close>

definition set_region_apply ::
  "kvm_config \<Rightarrow> set_region_env \<Rightarrow> kvm_memslots \<Rightarrow> kvm_userspace_memory_region
     \<Rightarrow> kvm_memory_slot \<Rightarrow> kvm_mr_change \<Rightarrow> errno option \<times> kvm_memslots" where
  "set_region_apply cfg env kvm mem new0 change =
     (let new1 = (if flags new0 AND KVM_MEM_LOG_DIRTY_PAGES = 0
                  then new0\<lparr>dirty_bitmap := None\<rparr> else new0);
          new2 = (if change = KVM_MR_CREATE
                  then new1\<lparr>userspace_addr := mem_userspace_addr mem\<rparr> else new1)
      in if change = KVM_MR_CREATE \<and> kvm_arch_create_memslot env \<noteq> None
         then (Some ENOMEM, kvm)
         else
           let need_bitmap = (flags new2 AND KVM_MEM_LOG_DIRTY_PAGES \<noteq> 0 \<and>
                              dirty_bitmap new2 = None)
           in if need_bitmap \<and> \<not> kvm_kvzalloc_ok env then (Some ENOMEM, kvm)
              else
                let new3 = (if need_bitmap
                            then new2\<lparr>dirty_bitmap := Some (kvm_create_dirty_bitmap new2)\<rparr>
                            else new2);
                    transitional = (change = KVM_MR_DELETE \<or> change = KVM_MR_MOVE)
                in if transitional \<and> \<not> kmemdup_ok env then (Some ENOMEM, kvm)
                   else
                     let (kvm1, slots) =
                           (if transitional
                            then (let (active, old_memslots) =
                                        install_new_memslots cfg kvm
                                          (mark_slot_invalid kvm (unat (slot mem))) None
                                  in (active, Some old_memslots))
                            else (kvm, None))
                     in case kvm_arch_prepare_memory_region env of
                          Some e \<Rightarrow> (Some e, kvm1)
                        | None \<Rightarrow>
                            if slots = None \<and> \<not> kmemdup_ok env then (Some ENOMEM, kvm1)
                            else
                              let slots2 = (case slots of None \<Rightarrow> kvm1 | Some s \<Rightarrow> s)
                              in if (change = KVM_MR_CREATE \<or> change = KVM_MR_MOVE) \<and>
                                    kvm_iommu_map_pages env \<noteq> None
                                 then (kvm_iommu_map_pages env, kvm1)
                                 else
                                   let new4 = (if change = KVM_MR_DELETE
                                               then new3\<lparr>dirty_bitmap := None\<rparr> else new3)
                                   in (None, fst (install_new_memslots cfg kvm1 slots2
                                                    (Some new4))))"

text \<open>
  The request's base frame and page count (lines 780 and 781), and the candidate slot
  \<^verbatim>\<open>new\<close> as lines 787 to 795 build it from the old slot: a request for no pages loses the
  log-dirty flag.
\<close>

definition region_base_gfn :: "kvm_userspace_memory_region \<Rightarrow> gfn_t" where
  "region_base_gfn mem = drop_bit PAGE_SHIFT (guest_phys_addr mem)"

definition region_npages :: "kvm_userspace_memory_region \<Rightarrow> ulong" where
  "region_npages mem = drop_bit PAGE_SHIFT (memory_size mem)"

definition candidate_slot :: "kvm_memslots \<Rightarrow> kvm_userspace_memory_region \<Rightarrow> kvm_memory_slot" where
  "candidate_slot kvm mem =
     (let old = id_to_memslot kvm (unat (slot mem));
          mflags = (if region_npages mem = 0
                    then mem_flags mem AND NOT KVM_MEM_LOG_DIRTY_PAGES
                    else mem_flags mem)
      in old\<lparr>id_slot := unat (slot mem), base_gfn := region_base_gfn mem,
              npages := region_npages mem, flags := mflags\<rparr>)"

definition request_change ::
  "kvm_memslots \<Rightarrow> kvm_userspace_memory_region \<Rightarrow> errno + kvm_mr_change option" where
  "request_change kvm mem =
     classify_change (id_to_memslot kvm (unat (slot mem))) (mem_userspace_addr mem)
       (candidate_slot kvm mem)"

text \<open>
  \<^verbatim>\<open>__kvm_set_memory_region\<close>. The state \<open>kvm\<close> is the active table \<^verbatim>\<open>kvm->memslots\<close>,
  the only field of \<^verbatim>\<open>struct kvm\<close> that the function writes. The result is the return
  value and the active table after the call.
\<close>

definition kvm_set_memory_region' ::
  "kvm_config \<Rightarrow> set_region_env \<Rightarrow> kvm_memslots \<Rightarrow> kvm_userspace_memory_region
     \<Rightarrow> errno option \<times> kvm_memslots" where
  "kvm_set_memory_region' cfg env kvm mem =
     (case region_sanity_checks cfg env mem of
        Some e \<Rightarrow> (Some e, kvm)
      | None \<Rightarrow>
         (case request_change kvm mem of
            Inl e \<Rightarrow> (Some e, kvm)
          | Inr None \<Rightarrow> (None, kvm)
          | Inr (Some change) \<Rightarrow>
              if (change = KVM_MR_CREATE \<or> change = KVM_MR_MOVE) \<and>
                 region_overlaps cfg kvm (unat (slot mem)) (region_base_gfn mem)
                   (region_npages mem)
              then (Some EEXIST, kvm)
              else set_region_apply cfg env kvm mem (candidate_slot kvm mem) change))"

text \<open>
  \<^verbatim>\<open>kvm_set_memory_region\<close> takes \<^verbatim>\<open>kvm->slots_lock\<close> around the call, and
  \<^verbatim>\<open>kvm_vm_ioctl_set_memory_region\<close> admits user slots only.
\<close>

definition kvm_set_memory_region ::
  "kvm_config \<Rightarrow> set_region_env \<Rightarrow> kvm_memslots \<Rightarrow> kvm_userspace_memory_region
     \<Rightarrow> errno option \<times> kvm_memslots" where
  "kvm_set_memory_region cfg env kvm mem = kvm_set_memory_region' cfg env kvm mem"

definition kvm_vm_ioctl_set_memory_region ::
  "kvm_config \<Rightarrow> set_region_env \<Rightarrow> kvm_memslots \<Rightarrow> kvm_userspace_memory_region
     \<Rightarrow> errno option \<times> kvm_memslots" where
  "kvm_vm_ioctl_set_memory_region cfg env kvm mem =
     (if unat (slot mem) \<ge> KVM_USER_MEM_SLOTS cfg then (Some EINVAL, kvm)
      else kvm_set_memory_region cfg env kvm mem)"

section \<open>Translation of guest frames\<close>

text \<open>
  \<^verbatim>\<open>gfn_to_memslot\<close> searches the active table. A pointer to a slot of the active table
  is the slot's index in the array; \<open>None\<close> is \<^verbatim>\<open>NULL\<close>.
\<close>

definition gfn_to_memslot :: "kvm_memslots \<Rightarrow> gfn_t \<Rightarrow> nat option" where
  "gfn_to_memslot kvm gfn = search_memslots kvm gfn"

definition slot_at :: "kvm_memslots \<Rightarrow> nat option \<Rightarrow> kvm_memory_slot option" where
  "slot_at kvm p = map_option (\<lambda>i. memslots kvm ! i) p"

definition memslot_is_readonly :: "kvm_memory_slot \<Rightarrow> bool" where
  "memslot_is_readonly s = (flags s AND KVM_MEM_READONLY \<noteq> 0)"

text \<open>
  Modelled from the spec: the error values of \<^verbatim>\<open>linux/kvm_host.h\<close>, which is not among
  the sources. A host address at or above \<^verbatim>\<open>PAGE_OFFSET\<close> is an error; the no-mapping
  error is \<^verbatim>\<open>PAGE_OFFSET\<close> itself and the read-only error, distinct from it, is one page
  above. The error frames have the bits of \<^verbatim>\<open>0x7ff << 52\<close> set (fault, hardware poison,
  read-only fault, in this order), and the no-slot frame is \<^verbatim>\<open>1 << 63\<close>.
\<close>

definition KVM_HVA_ERR_BAD :: "kvm_config \<Rightarrow> ulong" where
  "KVM_HVA_ERR_BAD cfg = PAGE_OFFSET cfg"

definition KVM_HVA_ERR_RO_BAD :: "kvm_config \<Rightarrow> ulong" where
  "KVM_HVA_ERR_RO_BAD cfg = PAGE_OFFSET cfg + PAGE_SIZE"

definition kvm_is_error_hva :: "kvm_config \<Rightarrow> ulong \<Rightarrow> bool" where
  "kvm_is_error_hva cfg addr = (addr \<ge> PAGE_OFFSET cfg)"

definition KVM_PFN_ERR_MASK :: pfn_t where
  "KVM_PFN_ERR_MASK = push_bit 52 2047"

definition KVM_PFN_NOSLOT :: pfn_t where
  "KVM_PFN_NOSLOT = push_bit 63 1"

definition KVM_PFN_ERR_FAULT :: pfn_t where
  "KVM_PFN_ERR_FAULT = KVM_PFN_ERR_MASK"

definition KVM_PFN_ERR_HWPOISON :: pfn_t where
  "KVM_PFN_ERR_HWPOISON = KVM_PFN_ERR_MASK + 1"

definition KVM_PFN_ERR_RO_FAULT :: pfn_t where
  "KVM_PFN_ERR_RO_FAULT = KVM_PFN_ERR_MASK + 2"

text \<open>
  \<^verbatim>\<open>__gfn_to_hva_many\<close>. The out-parameter \<^verbatim>\<open>nr_pages\<close> may be \<^verbatim>\<open>NULL\<close>: \<open>want_nr\<close> says
  whether the caller passed a pointer, and the second component of the result is what
  the function stored through it, if anything.
\<close>

definition gfn_to_hva_many' ::
  "kvm_config \<Rightarrow> kvm_memory_slot option \<Rightarrow> gfn_t \<Rightarrow> bool \<Rightarrow> bool \<Rightarrow> ulong \<times> gfn_t option" where
  "gfn_to_hva_many' cfg slot_p gfn want_nr write =
     (case slot_p of
        None \<Rightarrow> (KVM_HVA_ERR_BAD cfg, None)
      | Some s \<Rightarrow>
          if flags s AND KVM_MEMSLOT_INVALID \<noteq> 0 then (KVM_HVA_ERR_BAD cfg, None)
          else if memslot_is_readonly s \<and> write then (KVM_HVA_ERR_RO_BAD cfg, None)
          else (gfn_to_hva_memslot' s gfn,
                if want_nr then Some (npages s - (gfn - base_gfn s)) else None))"

definition gfn_to_hva_many ::
  "kvm_config \<Rightarrow> kvm_memory_slot option \<Rightarrow> gfn_t \<Rightarrow> bool \<Rightarrow> ulong \<times> gfn_t option" where
  "gfn_to_hva_many cfg slot_p gfn want_nr = gfn_to_hva_many' cfg slot_p gfn want_nr True"

definition gfn_to_hva_memslot :: "kvm_config \<Rightarrow> kvm_memory_slot option \<Rightarrow> gfn_t \<Rightarrow> ulong" where
  "gfn_to_hva_memslot cfg slot_p gfn = fst (gfn_to_hva_many cfg slot_p gfn False)"

definition gfn_to_hva :: "kvm_config \<Rightarrow> kvm_memslots \<Rightarrow> gfn_t \<Rightarrow> ulong" where
  "gfn_to_hva cfg kvm gfn =
     fst (gfn_to_hva_many cfg (slot_at kvm (gfn_to_memslot kvm gfn)) gfn False)"

definition gfn_to_hva_read :: "kvm_config \<Rightarrow> kvm_memslots \<Rightarrow> gfn_t \<Rightarrow> ulong" where
  "gfn_to_hva_read cfg kvm gfn =
     fst (gfn_to_hva_many' cfg (slot_at kvm (gfn_to_memslot kvm gfn)) gfn False False)"

subsection \<open>From host address to host frame\<close>

text \<open>
  The host memory manager answers through these fields. \<open>gup_fast_atomic\<close> is
  \<^verbatim>\<open>__get_user_pages_fast(addr, 1, 1, page)\<close>, the non-blocking pin of one page for
  writing: the frame of the page when it returns 1. The function is called at two places,
  in \<^verbatim>\<open>hva_to_pfn_fast\<close> and again in \<^verbatim>\<open>hva_to_pfn_slow\<close> after the page has been pinned
  for reading; the page tables may have changed in between (the first pin can fault the
  page in), so the answer at the second place is a field of its own,
  \<open>gup_fast_atomic_retry\<close>. \<open>gup_nowait\<close> and \<open>gup_fast\<close> are
  \<^verbatim>\<open>get_user_page_nowait\<close> and \<^verbatim>\<open>get_user_pages_fast\<close> with their write argument; they
  return 1 with a page, or \<^verbatim>\<open>-EHWPOISON\<close>, or another value. A mapping
  (\<^verbatim>\<open>struct vm_area_struct\<close>) is reduced to the fields and flag bits the code reads.
\<close>

datatype gup_ret = Gup_one pfn_t | Gup_hwpoison | Gup_other

record vm_area_struct =
  vm_start :: ulong
  vm_pgoff :: ulong
  vm_read :: bool
  vm_write :: bool
  vm_pfnmap :: bool

record mm_env =
  gup_fast_atomic :: "ulong \<Rightarrow> pfn_t option"
  gup_fast_atomic_retry :: "ulong \<Rightarrow> pfn_t option"
  gup_nowait :: "ulong \<Rightarrow> bool \<Rightarrow> gup_ret"
  gup_fast :: "ulong \<Rightarrow> bool \<Rightarrow> gup_ret"
  check_user_page_hwpoison :: "ulong \<Rightarrow> bool"
  find_vma_intersection :: "ulong \<Rightarrow> vm_area_struct option"
  kvm_is_mmio_pfn :: "pfn_t \<Rightarrow> bool"

text \<open>
  The calls a translation makes into the memory manager, in order, so that a theorem can
  say that a path pins nothing: the pin attempts, the poison probe and \<^verbatim>\<open>put_page\<close>.
\<close>

datatype mm_call =
    Call_gup_fast_atomic ulong
  | Call_gup_nowait ulong bool
  | Call_gup_fast ulong bool
  | Call_check_hwpoison ulong
  | Call_put_page pfn_t

text \<open>
  A pointer to a \<^verbatim>\<open>bool\<close> is a \<open>bool option\<close>: \<open>None\<close> is \<^verbatim>\<open>NULL\<close>, \<open>Some b\<close> a pointer
  to a cell that holds \<open>b\<close>. A function that stores through the pointer returns the cell.
\<close>

text \<open>
  \<^verbatim>\<open>hva_to_pfn_fast\<close>: the result is the return value, the cell of \<^verbatim>\<open>writable\<close>, the
  value of \<^verbatim>\<open>*pfn\<close> and the calls made.
\<close>

definition hva_to_pfn_fast ::
  "mm_env \<Rightarrow> ulong \<Rightarrow> bool \<Rightarrow> bool option \<Rightarrow> bool \<Rightarrow> bool option \<Rightarrow> pfn_t
     \<Rightarrow> bool \<times> bool option \<times> pfn_t \<times> mm_call list" where
  "hva_to_pfn_fast mm addr atomic async write_fault writable pfn =
     (if \<not> (async \<noteq> None \<or> atomic) then (False, writable, pfn, [])
      else if \<not> (write_fault \<or> writable \<noteq> None) then (False, writable, pfn, [])
      else
        (case gup_fast_atomic mm addr of
           Some p \<Rightarrow> (True, map_option (\<lambda>_. True) writable, p, [Call_gup_fast_atomic addr])
         | None \<Rightarrow> (False, writable, pfn, [Call_gup_fast_atomic addr])))"

text \<open>
  \<^verbatim>\<open>hva_to_pfn_slow\<close>: the result is the return value (\<^verbatim>\<open>npages\<close>), the cell of
  \<^verbatim>\<open>writable\<close>, the value of \<^verbatim>\<open>*pfn\<close> and the calls made.
\<close>

definition hva_to_pfn_slow ::
  "mm_env \<Rightarrow> ulong \<Rightarrow> bool option \<Rightarrow> bool \<Rightarrow> bool option \<Rightarrow> pfn_t
     \<Rightarrow> gup_ret \<times> bool option \<times> pfn_t \<times> mm_call list" where
  "hva_to_pfn_slow mm addr async write_fault writable pfn =
     (let writable1 = map_option (\<lambda>_. write_fault) writable;
          npages1 = (if async \<noteq> None then gup_nowait mm addr write_fault
                     else gup_fast mm addr write_fault);
          call1 = (if async \<noteq> None then Call_gup_nowait addr write_fault
                   else Call_gup_fast addr write_fault)
      in case npages1 of
           Gup_one page \<Rightarrow>
             if \<not> write_fault \<and> writable \<noteq> None then
               (case gup_fast_atomic_retry mm addr of
                  Some wpage \<Rightarrow>
                    (Gup_one wpage, map_option (\<lambda>_. True) writable, wpage,
                     [call1, Call_gup_fast_atomic addr, Call_put_page page])
                | None \<Rightarrow>
                    (Gup_one page, writable1, page, [call1, Call_gup_fast_atomic addr]))
             else (Gup_one page, writable1, page, [call1])
         | Gup_hwpoison \<Rightarrow> (Gup_hwpoison, writable1, pfn, [call1])
         | Gup_other \<Rightarrow> (Gup_other, writable1, pfn, [call1]))"

definition vma_is_valid :: "vm_area_struct \<Rightarrow> bool \<Rightarrow> bool" where
  "vma_is_valid vma write_fault =
     (if \<not> vm_read vma then False
      else if write_fault \<and> \<not> vm_write vma then False
      else True)"

text \<open>
  The result of a translation: the frame (or an error frame), the cells of \<^verbatim>\<open>async\<close> and
  \<^verbatim>\<open>writable\<close> after the call, and the calls made into the memory manager.
\<close>

record pfn_result =
  res_pfn :: pfn_t
  res_async :: "bool option"
  res_writable :: "bool option"
  res_calls :: "mm_call list"

text \<open>\<^verbatim>\<open>hva_to_pfn\<close>. The two \<^verbatim>\<open>BUG_ON\<close> are \<open>Inl BUG\<close>.\<close>

definition hva_to_pfn ::
  "mm_env \<Rightarrow> ulong \<Rightarrow> bool \<Rightarrow> bool option \<Rightarrow> bool \<Rightarrow> bool option \<Rightarrow> fatal + pfn_result" where
  "hva_to_pfn mm addr atomic async write_fault writable =
     (if atomic \<and> async \<noteq> None then Inl BUG
      else
        (case hva_to_pfn_fast mm addr atomic async write_fault writable 0 of
           (True, w1, pfn1, c1) \<Rightarrow>
             Inr \<lparr>res_pfn = pfn1, res_async = async, res_writable = w1, res_calls = c1\<rparr>
         | (False, w1, pfn1, c1) \<Rightarrow>
             if atomic then
               Inr \<lparr>res_pfn = KVM_PFN_ERR_FAULT, res_async = async, res_writable = w1,
                    res_calls = c1\<rparr>
             else
               (case hva_to_pfn_slow mm addr async write_fault w1 pfn1 of
                  (Gup_one page, w2, pfn2, c2) \<Rightarrow>
                    Inr \<lparr>res_pfn = pfn2, res_async = async, res_writable = w2,
                         res_calls = c1 @ c2\<rparr>
                | (npages2, w2, pfn2, c2) \<Rightarrow>
                    if npages2 = Gup_hwpoison then
                      Inr \<lparr>res_pfn = KVM_PFN_ERR_HWPOISON, res_async = async,
                           res_writable = w2, res_calls = c1 @ c2\<rparr>
                    else if async = None \<and> check_user_page_hwpoison mm addr then
                      Inr \<lparr>res_pfn = KVM_PFN_ERR_HWPOISON, res_async = async,
                           res_writable = w2,
                           res_calls = c1 @ c2 @ [Call_check_hwpoison addr]\<rparr>
                    else
                      (let c3 = c1 @ c2 @
                                (if async = None then [Call_check_hwpoison addr] else [])
                       in case find_vma_intersection mm addr of
                            None \<Rightarrow>
                              Inr \<lparr>res_pfn = KVM_PFN_ERR_FAULT, res_async = async,
                                   res_writable = w2, res_calls = c3\<rparr>
                          | Some vma \<Rightarrow>
                              if vm_pfnmap vma then
                                (let pfn3 = drop_bit PAGE_SHIFT (addr - vm_start vma) +
                                            vm_pgoff vma
                                 in if \<not> kvm_is_mmio_pfn mm pfn3 then Inl BUG
                                    else Inr \<lparr>res_pfn = pfn3, res_async = async,
                                              res_writable = w2, res_calls = c3\<rparr>)
                              else
                                Inr \<lparr>res_pfn = KVM_PFN_ERR_FAULT,
                                     res_async = (if async \<noteq> None \<and> vma_is_valid vma write_fault
                                                  then Some True else async),
                                     res_writable = w2, res_calls = c3\<rparr>))))"

text \<open>
  \<^verbatim>\<open>__gfn_to_pfn_memslot\<close>. On a read-only slot a caller's \<^verbatim>\<open>writable\<close> cell is set to
  false and \<^verbatim>\<open>hva_to_pfn\<close> gets \<^verbatim>\<open>NULL\<close> in its place.
\<close>

definition gfn_to_pfn_memslot' ::
  "kvm_config \<Rightarrow> mm_env \<Rightarrow> kvm_memory_slot option \<Rightarrow> gfn_t \<Rightarrow> bool \<Rightarrow> bool option \<Rightarrow> bool
     \<Rightarrow> bool option \<Rightarrow> fatal + pfn_result" where
  "gfn_to_pfn_memslot' cfg mm slot_p gfn atomic async write_fault writable =
     (let addr = fst (gfn_to_hva_many' cfg slot_p gfn False write_fault)
      in if addr = KVM_HVA_ERR_RO_BAD cfg then
           Inr \<lparr>res_pfn = KVM_PFN_ERR_RO_FAULT, res_async = async, res_writable = writable,
                res_calls = []\<rparr>
         else if kvm_is_error_hva cfg addr then
           Inr \<lparr>res_pfn = KVM_PFN_NOSLOT, res_async = async, res_writable = writable,
                res_calls = []\<rparr>
         else if writable \<noteq> None \<and> (case slot_p of None \<Rightarrow> False | Some s \<Rightarrow> memslot_is_readonly s)
         then
           (case hva_to_pfn mm addr atomic async write_fault None of
              Inl b \<Rightarrow> Inl b
            | Inr r \<Rightarrow> Inr (r\<lparr>res_writable := Some False\<rparr>))
         else hva_to_pfn mm addr atomic async write_fault writable)"

text \<open>\<^verbatim>\<open>__gfn_to_pfn\<close> clears the caller's \<^verbatim>\<open>async\<close> cell and looks the slot up.\<close>

definition gfn_to_pfn' ::
  "kvm_config \<Rightarrow> mm_env \<Rightarrow> kvm_memslots \<Rightarrow> gfn_t \<Rightarrow> bool \<Rightarrow> bool option \<Rightarrow> bool
     \<Rightarrow> bool option \<Rightarrow> fatal + pfn_result" where
  "gfn_to_pfn' cfg mm kvm gfn atomic async write_fault writable =
     gfn_to_pfn_memslot' cfg mm (slot_at kvm (gfn_to_memslot kvm gfn)) gfn atomic
       (map_option (\<lambda>_. False) async) write_fault writable"

definition gfn_to_pfn_atomic :: "kvm_config \<Rightarrow> mm_env \<Rightarrow> kvm_memslots \<Rightarrow> gfn_t \<Rightarrow> fatal + pfn_result" where
  "gfn_to_pfn_atomic cfg mm kvm gfn = gfn_to_pfn' cfg mm kvm gfn True None True None"

definition gfn_to_pfn_async ::
  "kvm_config \<Rightarrow> mm_env \<Rightarrow> kvm_memslots \<Rightarrow> gfn_t \<Rightarrow> bool option \<Rightarrow> bool \<Rightarrow> bool option
     \<Rightarrow> fatal + pfn_result" where
  "gfn_to_pfn_async cfg mm kvm gfn async write_fault writable =
     gfn_to_pfn' cfg mm kvm gfn False async write_fault writable"

definition gfn_to_pfn :: "kvm_config \<Rightarrow> mm_env \<Rightarrow> kvm_memslots \<Rightarrow> gfn_t \<Rightarrow> fatal + pfn_result" where
  "gfn_to_pfn cfg mm kvm gfn = gfn_to_pfn' cfg mm kvm gfn False None True None"

definition gfn_to_pfn_prot ::
  "kvm_config \<Rightarrow> mm_env \<Rightarrow> kvm_memslots \<Rightarrow> gfn_t \<Rightarrow> bool \<Rightarrow> bool option \<Rightarrow> fatal + pfn_result" where
  "gfn_to_pfn_prot cfg mm kvm gfn write_fault writable =
     gfn_to_pfn' cfg mm kvm gfn False None write_fault writable"

section \<open>Dirty-page tracking\<close>

text \<open>
  Modelled from the spec: \<^verbatim>\<open>set_bit_le\<close> of \<^verbatim>\<open>asm-generic/bitops/le.h\<close>, which is not among
  the sources. The bitmap has one bit per page, little-endian in each long: bit \<open>nr\<close> is
  bit \<open>nr mod 64\<close> of the long \<open>nr div 64\<close>. A store outside the array is undefined in C;
  here it leaves the array as it is, and the theorems below keep \<open>nr\<close> inside.
\<close>

definition set_bit_le :: "nat \<Rightarrow> ulong list \<Rightarrow> ulong list" where
  "set_bit_le nr addr = addr[nr div 64 := (addr ! (nr div 64)) OR push_bit (nr mod 64) 1]"

text \<open>Reading bit \<open>nr\<close> of a bitmap, in the same bit order.\<close>

definition bitmap_bit :: "ulong list \<Rightarrow> nat \<Rightarrow> bool" where
  "bitmap_bit bm nr = bit (bm ! (nr div 64)) (nr mod 64)"

text \<open>
  \<^verbatim>\<open>mark_page_dirty_in_slot\<close>. The slot pointer points into the active table, so the store
  into the slot's bitmap is a change of the active table.
\<close>

definition mark_page_dirty_in_slot :: "kvm_memslots \<Rightarrow> nat option \<Rightarrow> gfn_t \<Rightarrow> kvm_memslots" where
  "mark_page_dirty_in_slot kvm memslot gfn =
     (case memslot of
        None \<Rightarrow> kvm
      | Some i \<Rightarrow>
          (case dirty_bitmap (memslots kvm ! i) of
             None \<Rightarrow> kvm
           | Some bm \<Rightarrow>
               (let rel_gfn = gfn - base_gfn (memslots kvm ! i)
                in kvm\<lparr>memslots := (memslots kvm)
                         [i := (memslots kvm ! i)\<lparr>dirty_bitmap :=
                                  Some (set_bit_le (unat rel_gfn) bm)\<rparr>]\<rparr>)))"

definition mark_page_dirty :: "kvm_memslots \<Rightarrow> gfn_t \<Rightarrow> kvm_memslots" where
  "mark_page_dirty kvm gfn = mark_page_dirty_in_slot kvm (gfn_to_memslot kvm gfn) gfn"

text \<open>
  The loop of \<^verbatim>\<open>kvm_get_dirty_log\<close> over the longs of the bitmap: it stops at the first
  long that is not zero and keeps it.
\<close>

fun first_nonzero :: "ulong list \<Rightarrow> ulong" where
  "first_nonzero [] = 0"
| "first_nonzero (w # ws) = (if w \<noteq> 0 then w else first_nonzero ws)"

text \<open>
  \<^verbatim>\<open>kvm_get_dirty_log\<close>. \<open>copy_ok\<close> says whether \<^verbatim>\<open>copy_to_user\<close> succeeds; \<open>is_dirty\<close> is
  the caller's cell, which the function sets to 1 when some bit is set and leaves alone
  otherwise. The result is the error, or the longs copied to the caller's buffer and the
  cell. The function writes nothing to the slot table.
\<close>

definition kvm_get_dirty_log ::
  "kvm_config \<Rightarrow> bool \<Rightarrow> kvm_memslots \<Rightarrow> u32 \<Rightarrow> cint \<Rightarrow> errno + (ulong list \<times> cint)" where
  "kvm_get_dirty_log cfg copy_ok kvm log_slot is_dirty =
     (if unat log_slot \<ge> KVM_USER_MEM_SLOTS cfg then Inl EINVAL
      else
        (let memslot = id_to_memslot kvm (unat log_slot)
         in case dirty_bitmap memslot of
              None \<Rightarrow> Inl ENOENT
            | Some bm \<Rightarrow>
                (let n = kvm_dirty_bitmap_bytes memslot;
                     any = first_nonzero (take (unat (n div 8)) bm)
                 in if \<not> copy_ok then Inl EFAULT
                    else Inr (take (unat n div 8) bm, if any \<noteq> 0 then 1 else is_dirty))))"

section \<open>Guest writes and the cached handle\<close>

text \<open>
  The contents of guest memory are not modelled: \<open>copy_to_user\<close> says, for a host address
  and a length, whether \<^verbatim>\<open>__copy_to_user\<close> succeeds. Offsets in a page and segment
  lengths are below the page size, where the code's conversions between \<^verbatim>\<open>int\<close> and
  \<^verbatim>\<open>unsigned long\<close> keep the value; they are \<open>ulong\<close> here.
\<close>

definition next_segment :: "ulong \<Rightarrow> ulong \<Rightarrow> ulong" where
  "next_segment len offset =
     (if len > PAGE_SIZE - offset then PAGE_SIZE - offset else len)"

definition kvm_write_guest_page ::
  "kvm_config \<Rightarrow> (ulong \<Rightarrow> ulong \<Rightarrow> bool) \<Rightarrow> kvm_memslots \<Rightarrow> gfn_t \<Rightarrow> ulong \<Rightarrow> ulong
     \<Rightarrow> errno option \<times> kvm_memslots" where
  "kvm_write_guest_page cfg copy_to_user kvm gfn offset len =
     (let addr = gfn_to_hva cfg kvm gfn
      in if kvm_is_error_hva cfg addr then (Some EFAULT, kvm)
         else if \<not> copy_to_user (addr + offset) len then (Some EFAULT, kvm)
         else (None, mark_page_dirty kvm gfn))"

text \<open>The loop of \<^verbatim>\<open>kvm_write_guest\<close>, one page segment at a time.\<close>

function kvm_write_guest_segments ::
  "kvm_config \<Rightarrow> (ulong \<Rightarrow> ulong \<Rightarrow> bool) \<Rightarrow> kvm_memslots \<Rightarrow> gfn_t \<Rightarrow> ulong \<Rightarrow> ulong
     \<Rightarrow> errno option \<times> kvm_memslots" where
  "kvm_write_guest_segments cfg copy_to_user kvm gfn len offset =
     (if next_segment len offset = 0 then (None, kvm)
      else
        (case kvm_write_guest_page cfg copy_to_user kvm gfn offset (next_segment len offset) of
           (Some e, kvm') \<Rightarrow> (Some e, kvm')
         | (None, kvm') \<Rightarrow>
             kvm_write_guest_segments cfg copy_to_user kvm' (gfn + 1)
               (len - next_segment len offset) 0))"
  by pat_completeness auto
termination
proof (relation "measure (\<lambda>(cfg, cu, kvm, gfn, len, offset). unat len)")
  show "wf (measure (\<lambda>(cfg, cu, kvm, gfn, len, offset). unat len))"
    by simp
next
  fix cfg :: kvm_config and copy_to_user :: "ulong \<Rightarrow> ulong \<Rightarrow> bool"
    and kvm kvm' :: kvm_memslots and gfn len offset :: ulong and x :: "errno option"
  assume nz: "next_segment len offset \<noteq> 0"
  have le: "next_segment len offset \<le> len"
    by (auto simp: next_segment_def)
  from nz have "0 < unat (next_segment len offset)"
    by (simp add: unat_gt_0)
  moreover have "unat (len - next_segment len offset) = unat len - unat (next_segment len offset)"
    using le by (simp add: unat_sub)
  moreover have "unat (next_segment len offset) \<le> unat len"
    using le by (simp add: word_le_nat_alt)
  ultimately have "unat (len - next_segment len offset) < unat len"
    by simp
  then show "((cfg, copy_to_user, kvm', gfn + 1, len - next_segment len offset, 0),
              (cfg, copy_to_user, kvm, gfn, len, offset))
             \<in> measure (\<lambda>(cfg, cu, kvm, gfn, len, offset). unat len)"
    by simp
qed

definition kvm_write_guest ::
  "kvm_config \<Rightarrow> (ulong \<Rightarrow> ulong \<Rightarrow> bool) \<Rightarrow> kvm_memslots \<Rightarrow> gpa_t \<Rightarrow> ulong
     \<Rightarrow> errno option \<times> kvm_memslots" where
  "kvm_write_guest cfg copy_to_user kvm gpa len =
     kvm_write_guest_segments cfg copy_to_user kvm (drop_bit PAGE_SHIFT gpa) len
       (gpa AND (PAGE_SIZE - 1))"

text \<open>
  \<^verbatim>\<open>struct gfn_to_hva_cache\<close>; its fields carry the prefix \<open>ghc_\<close>. The slot pointer is an
  index into the table that was active when the handle was stamped.
\<close>

record gfn_to_hva_cache =
  ghc_generation :: u64
  ghc_gpa :: gpa_t
  ghc_hva :: ulong
  ghc_len :: ulong
  ghc_memslot :: "nat option"

text \<open>
  One turn of the loop of \<^verbatim>\<open>kvm_gfn_to_hva_cache_init\<close> looks the slot of the frame up
  and asks for its host address and the pages left in the slot.
\<close>

definition hva_cache_probe ::
  "kvm_config \<Rightarrow> kvm_memslots \<Rightarrow> gfn_t \<Rightarrow> nat option \<times> ulong \<times> gfn_t option" where
  "hva_cache_probe cfg kvm gfn =
     (let m = gfn_to_memslot kvm gfn;
          r = gfn_to_hva_many cfg (slot_at kvm m) gfn True
      in (m, fst r, snd r))"

text \<open>A slot found for a frame is present and holds the frame; a probe that succeeds advances.\<close>

lemma search_memslots_from_Some:
  "search_memslots_from ss k gfn = Some i \<Longrightarrow>
     k \<le> i \<and> i - k < length ss \<and> npages (ss ! (i - k)) \<noteq> 0 \<and>
     base_gfn (ss ! (i - k)) \<le> gfn \<and> gfn < base_gfn (ss ! (i - k)) + npages (ss ! (i - k))"
proof (induction ss arbitrary: k)
  case Nil
  then show ?case by simp
next
  case (Cons s ss)
  show ?case
  proof (cases "npages s \<noteq> 0 \<and> \<not> (base_gfn s \<le> gfn \<and> gfn < base_gfn s + npages s)")
    case True
    with Cons.prems have "search_memslots_from ss (Suc k) gfn = Some i" by auto
    from Cons.IH [OF this] show ?thesis by (auto simp: Suc_diff_Suc less_eq_Suc_le)
  next
    case False
    with Cons.prems show ?thesis by (auto split: if_splits)
  qed
qed

lemma gfn_to_memslot_Some:
  "gfn_to_memslot kvm gfn = Some i \<Longrightarrow>
     i < length (memslots kvm) \<and> npages (memslots kvm ! i) \<noteq> 0 \<and>
     base_gfn (memslots kvm ! i) \<le> gfn \<and>
     gfn < base_gfn (memslots kvm ! i) + npages (memslots kvm ! i)"
  using search_memslots_from_Some [of "memslots kvm" 0 gfn i]
  by (simp add: gfn_to_memslot_def search_memslots_def)

lemma hva_cache_probe_advances:
  assumes "hva_cache_probe cfg kvm gfn = (m, hva, Some n)"
  shows "unat gfn < unat (gfn + n)"
proof -
  from assms obtain i where m: "gfn_to_memslot kvm gfn = Some i"
    and n: "n = npages (memslots kvm ! i) - (gfn - base_gfn (memslots kvm ! i))"
    by (auto simp: hva_cache_probe_def gfn_to_hva_many_def gfn_to_hva_many'_def slot_at_def
        Let_def split: option.splits if_splits)
  have "gfn + n = base_gfn (memslots kvm ! i) + npages (memslots kvm ! i)"
    by (simp add: n)
  with gfn_to_memslot_Some [OF m] show ?thesis
    by (simp add: word_less_nat_alt)
qed

text \<open>
  The loop of \<^verbatim>\<open>kvm_gfn_to_hva_cache_init\<close> (lines 1560 to 1569): it walks the slots that
  cover the region and fails on the first frame without a usable host address. Each turn
  moves the start to the end of the slot it found, so the walk ends. \<^verbatim>\<open>nr_pages_avail\<close>
  is stored whenever the address is not an error, so the branch \<open>None\<close> is never taken.
\<close>

function hva_cache_init_walk ::
  "kvm_config \<Rightarrow> kvm_memslots \<Rightarrow> gfn_t \<Rightarrow> gfn_t \<Rightarrow> gfn_to_hva_cache
     \<Rightarrow> errno option \<times> gfn_to_hva_cache" where
  "hva_cache_init_walk cfg kvm start_gfn end_gfn ghc =
     (if start_gfn \<le> end_gfn then
        (case hva_cache_probe cfg kvm start_gfn of
           (m, hva, nr_pages_avail) \<Rightarrow>
             if kvm_is_error_hva cfg hva
             then (Some EFAULT, ghc\<lparr>ghc_memslot := m, ghc_hva := hva\<rparr>)
             else
               (case nr_pages_avail of
                  None \<Rightarrow> (Some EFAULT, ghc\<lparr>ghc_memslot := m, ghc_hva := hva\<rparr>)
                | Some n \<Rightarrow>
                    hva_cache_init_walk cfg kvm (start_gfn + n) end_gfn
                      (ghc\<lparr>ghc_memslot := m, ghc_hva := hva\<rparr>)))
      else (None, ghc\<lparr>ghc_memslot := None\<rparr>))"
  by pat_completeness auto
termination
proof (relation "measure (\<lambda>(cfg, kvm, start_gfn, end_gfn, ghc). 2 ^ 64 - unat start_gfn)")
  show "wf (measure (\<lambda>(cfg, kvm, start_gfn, end_gfn, ghc). 2 ^ 64 - unat start_gfn))"
    by simp
next
  fix cfg :: kvm_config and kvm :: kvm_memslots and start_gfn end_gfn :: gfn_t
    and ghc :: gfn_to_hva_cache and m :: "nat option" and y :: "ulong \<times> gfn_t option"
    and hva :: ulong and nr_pages_avail :: "gfn_t option" and n :: gfn_t
  assume "(m, y) = hva_cache_probe cfg kvm start_gfn" "(hva, nr_pages_avail) = y"
    "nr_pages_avail = Some n"
  then have "hva_cache_probe cfg kvm start_gfn = (m, hva, Some n)" by simp
  from hva_cache_probe_advances [OF this]
  have "unat start_gfn < unat (start_gfn + n)" .
  moreover have "unat (start_gfn + n) < 2 ^ 64"
    using unsigned_less [of "start_gfn + n"] by simp
  ultimately
  show "((cfg, kvm, start_gfn + n, end_gfn, ghc\<lparr>ghc_memslot := m, ghc_hva := hva\<rparr>),
         (cfg, kvm, start_gfn, end_gfn, ghc))
        \<in> measure (\<lambda>(cfg, kvm, start_gfn, end_gfn, ghc). 2 ^ 64 - unat start_gfn)"
    by simp
qed

declare hva_cache_init_walk.simps [simp del]

declare kvm_write_guest_segments.simps [simp del]

text \<open>\<^verbatim>\<open>kvm_gfn_to_hva_cache_init\<close>: the return value and the handle after the call.\<close>

definition kvm_gfn_to_hva_cache_init ::
  "kvm_config \<Rightarrow> kvm_memslots \<Rightarrow> gfn_to_hva_cache \<Rightarrow> gpa_t \<Rightarrow> ulong
     \<Rightarrow> errno option \<times> gfn_to_hva_cache" where
  "kvm_gfn_to_hva_cache_init cfg kvm ghc gpa len =
     (let offset = gpa AND (PAGE_SIZE - 1);
          start_gfn = drop_bit PAGE_SHIFT gpa;
          end_gfn = drop_bit PAGE_SHIFT (gpa + len - 1);
          nr_pages_needed = end_gfn - start_gfn + 1;
          m = gfn_to_memslot kvm start_gfn;
          hva = fst (gfn_to_hva_many cfg (slot_at kvm m) start_gfn False);
          ghc1 = ghc\<lparr>ghc_gpa := gpa, ghc_generation := generation kvm, ghc_len := len,
                     ghc_memslot := m, ghc_hva := hva\<rparr>
      in if \<not> kvm_is_error_hva cfg hva \<and> nr_pages_needed \<le> 1
         then (None, ghc1\<lparr>ghc_hva := hva + offset\<rparr>)
         else hva_cache_init_walk cfg kvm start_gfn end_gfn ghc1)"

text \<open>
  \<^verbatim>\<open>kvm_write_guest_cached\<close>: \<open>Inl BUG\<close> for \<^verbatim>\<open>BUG_ON(len > ghc->len)\<close>, otherwise the
  return value, the active table (its dirty bitmaps change) and the handle after the
  call. The return value of the re-initialisation is dropped, as in the code.
\<close>

definition kvm_write_guest_cached ::
  "kvm_config \<Rightarrow> (ulong \<Rightarrow> ulong \<Rightarrow> bool) \<Rightarrow> kvm_memslots \<Rightarrow> gfn_to_hva_cache \<Rightarrow> ulong
     \<Rightarrow> fatal + (errno option \<times> kvm_memslots \<times> gfn_to_hva_cache)" where
  "kvm_write_guest_cached cfg copy_to_user kvm ghc len =
     (if len > ghc_len ghc then Inl BUG
      else
        (let ghc1 = (if generation kvm \<noteq> ghc_generation ghc
                     then snd (kvm_gfn_to_hva_cache_init cfg kvm ghc (ghc_gpa ghc) (ghc_len ghc))
                     else ghc)
         in case ghc_memslot ghc1 of
              None \<Rightarrow>
                (let r = kvm_write_guest cfg copy_to_user kvm (ghc_gpa ghc1) len
                 in Inr (fst r, snd r, ghc1))
            | Some i \<Rightarrow>
                if kvm_is_error_hva cfg (ghc_hva ghc1) then Inr (Some EFAULT, kvm, ghc1)
                else if \<not> copy_to_user (ghc_hva ghc1) len then Inr (Some EFAULT, kvm, ghc1)
                else Inr (None,
                          mark_page_dirty_in_slot kvm (Some i)
                            (drop_bit PAGE_SHIFT (ghc_gpa ghc1)),
                          ghc1)))"

section \<open>The I/O bus\<close>

text \<open>
  \<^verbatim>\<open>struct kvm_io_range\<close> and \<^verbatim>\<open>struct kvm_io_bus\<close>; the fields carry the prefix \<open>io_\<close>
  (\<^verbatim>\<open>addr\<close>, \<^verbatim>\<open>len\<close>, \<^verbatim>\<open>dev\<close>, \<^verbatim>\<open>range\<close>). A device is named by a number. The length is an
  \<^verbatim>\<open>int\<close>, which the comparison converts to the 64-bit type of the address.
\<close>

record kvm_io_range =
  io_addr :: gpa_t
  io_len :: cint
  io_dev :: nat

record kvm_io_bus =
  dev_count :: nat
  io_range :: "kvm_io_range list"

text \<open>\<^verbatim>\<open>kvm_io_bus_sort_cmp\<close>.\<close>

definition kvm_io_bus_sort_cmp :: "kvm_io_range \<Rightarrow> kvm_io_range \<Rightarrow> int" where
  "kvm_io_bus_sort_cmp r1 r2 =
     (if io_addr r1 < io_addr r2 then -1
      else if io_addr r1 + scast (io_len r1) > io_addr r2 + scast (io_len r2) then 1
      else 0)"

text \<open>
  Modelled from the spec: \<^verbatim>\<open>bsearch\<close> of \<^verbatim>\<open>lib/bsearch.c\<close>, which is not among the sources.
  It is the binary search on a comparator that the spec names: it probes the middle of the
  interval \<open>start\<close> to \<open>end\<close>, goes left when the key compares less, right when it
  compares greater, and returns the index of the element that compares equal, or \<open>None\<close>
  (\<^verbatim>\<open>NULL\<close>) when the interval is empty.
\<close>

function bsearch_from ::
  "'k \<Rightarrow> 'a list \<Rightarrow> ('k \<Rightarrow> 'a \<Rightarrow> int) \<Rightarrow> nat \<Rightarrow> nat \<Rightarrow> nat option" where
  "bsearch_from key base cmp start end =
     (if start < end then
        (let mid = start + (end - start) div 2;
             result = cmp key (base ! mid)
         in if result < 0 then bsearch_from key base cmp start mid
            else if result > 0 then bsearch_from key base cmp (mid + 1) end
            else Some mid)
      else None)"
  by pat_completeness auto
termination
  by (relation "measure (\<lambda>(key, base, cmp, start, end). end - start)") auto

declare bsearch_from.simps [simp del]

definition bsearch :: "'k \<Rightarrow> 'a list \<Rightarrow> nat \<Rightarrow> ('k \<Rightarrow> 'a \<Rightarrow> int) \<Rightarrow> nat option" where
  "bsearch key base num cmp = bsearch_from key base cmp 0 num"

text \<open>
  \<^verbatim>\<open>kvm_io_bus_get_first_dev\<close>: from the element the search found, step back while the
  element before compares equal. \<open>Inl ENOENT\<close> when the search found nothing.
\<close>

fun first_dev_back :: "kvm_io_range \<Rightarrow> kvm_io_range list \<Rightarrow> nat \<Rightarrow> nat" where
  "first_dev_back key rs 0 = 0"
| "first_dev_back key rs (Suc off) =
     (if kvm_io_bus_sort_cmp key (rs ! off) = 0 then first_dev_back key rs off else Suc off)"

definition kvm_io_bus_get_first_dev :: "kvm_io_bus \<Rightarrow> gpa_t \<Rightarrow> cint \<Rightarrow> errno + nat" where
  "kvm_io_bus_get_first_dev bus addr len =
     (let key = \<lparr>io_addr = addr, io_len = len, io_dev = 0\<rparr>
      in case bsearch key (io_range bus) (dev_count bus) kvm_io_bus_sort_cmp of
           None \<Rightarrow> Inl ENOENT
         | Some off \<Rightarrow> Inr (first_dev_back key (io_range bus) off))"

text \<open>
  The loop of \<^verbatim>\<open>kvm_io_bus_write\<close> and of \<^verbatim>\<open>kvm_io_bus_read\<close>, from index \<open>idx\<close>: while the
  range compares equal to the access, offer it to the range's device; stop when a device
  handles it. \<open>handler\<close> is \<^verbatim>\<open>kvm_iodevice_write\<close> or \<^verbatim>\<open>kvm_iodevice_read\<close> (\<open>None\<close> is the
  return value 0, handled). The result is the return value and the devices the access
  was offered to, in order.
\<close>

function kvm_io_bus_offer ::
  "(nat \<Rightarrow> gpa_t \<Rightarrow> cint \<Rightarrow> errno option) \<Rightarrow> kvm_io_bus \<Rightarrow> gpa_t \<Rightarrow> cint \<Rightarrow> nat
     \<Rightarrow> errno option \<times> nat list" where
  "kvm_io_bus_offer handler bus addr len idx =
     (if idx < dev_count bus \<and>
         kvm_io_bus_sort_cmp \<lparr>io_addr = addr, io_len = len, io_dev = 0\<rparr> (io_range bus ! idx) = 0
      then
        (if handler (io_dev (io_range bus ! idx)) addr len = None
         then (None, [io_dev (io_range bus ! idx)])
         else (case kvm_io_bus_offer handler bus addr len (idx + 1) of
                 (r, ds) \<Rightarrow> (r, io_dev (io_range bus ! idx) # ds)))
      else (Some EOPNOTSUPP, []))"
  by pat_completeness auto
termination
  by (relation "measure (\<lambda>(handler, bus, addr, len, idx). dev_count bus - idx)") auto

declare kvm_io_bus_offer.simps [simp del]

text \<open>
  \<^verbatim>\<open>kvm_io_bus_write\<close> and \<^verbatim>\<open>kvm_io_bus_read\<close>; \<open>bus\<close> is \<^verbatim>\<open>kvm->buses[bus_idx]\<close>.
\<close>

definition kvm_io_bus_write ::
  "(nat \<Rightarrow> gpa_t \<Rightarrow> cint \<Rightarrow> errno option) \<Rightarrow> kvm_io_bus \<Rightarrow> gpa_t \<Rightarrow> cint
     \<Rightarrow> errno option \<times> nat list" where
  "kvm_io_bus_write kvm_iodevice_write bus addr len =
     (case kvm_io_bus_get_first_dev bus addr len of
        Inl e \<Rightarrow> (Some EOPNOTSUPP, [])
      | Inr idx \<Rightarrow> kvm_io_bus_offer kvm_iodevice_write bus addr len idx)"

definition kvm_io_bus_read ::
  "(nat \<Rightarrow> gpa_t \<Rightarrow> cint \<Rightarrow> errno option) \<Rightarrow> kvm_io_bus \<Rightarrow> gpa_t \<Rightarrow> cint
     \<Rightarrow> errno option \<times> nat list" where
  "kvm_io_bus_read kvm_iodevice_read bus addr len =
     (case kvm_io_bus_get_first_dev bus addr len of
        Inl e \<Rightarrow> (Some EOPNOTSUPP, [])
      | Inr idx \<Rightarrow> kvm_io_bus_offer kvm_iodevice_read bus addr len idx)"

text \<open>
  The dispatch as the spec words it: the ranges that compare equal to the access, in the
  order of the table, are offered the access one after the other until a device handles
  it; with no such range, or when every device declines, the access is unhandled.
\<close>

definition io_access :: "gpa_t \<Rightarrow> cint \<Rightarrow> kvm_io_range" where
  "io_access addr len = \<lparr>io_addr = addr, io_len = len, io_dev = 0\<rparr>"

fun offer_in_order ::
  "(nat \<Rightarrow> gpa_t \<Rightarrow> cint \<Rightarrow> errno option) \<Rightarrow> gpa_t \<Rightarrow> cint \<Rightarrow> kvm_io_range list
     \<Rightarrow> errno option \<times> nat list" where
  "offer_in_order handler addr len [] = (Some EOPNOTSUPP, [])"
| "offer_in_order handler addr len (r # rs) =
     (if handler (io_dev r) addr len = None then (None, [io_dev r])
      else (case offer_in_order handler addr len rs of (e, ds) \<Rightarrow> (e, io_dev r # ds)))"

definition dispatch_spec ::
  "(nat \<Rightarrow> gpa_t \<Rightarrow> cint \<Rightarrow> errno option) \<Rightarrow> kvm_io_bus \<Rightarrow> gpa_t \<Rightarrow> cint
     \<Rightarrow> errno option \<times> nat list" where
  "dispatch_spec handler bus addr len =
     offer_in_order handler addr len
       (filter (\<lambda>r. kvm_io_bus_sort_cmp (io_access addr len) r = 0) (io_range bus))"

text \<open>
  A bus whose table has the length its count says and whose ranges ascend both in their
  start and in their end: no range lies inside another one that starts earlier.
\<close>

definition io_range_end :: "kvm_io_range \<Rightarrow> gpa_t" where
  "io_range_end r = io_addr r + scast (io_len r)"

definition bus_ascending :: "kvm_io_bus \<Rightarrow> bool" where
  "bus_ascending bus =
     (dev_count bus = length (io_range bus) \<and>
      sorted_wrt (\<lambda>a b. io_addr a \<le> io_addr b \<and> io_range_end a \<le> io_range_end b)
        (io_range bus))"

section \<open>Properties of tables and requests\<close>

text \<open>
  The table is kept sorted by descending size (\<^verbatim>\<open>sort_memslots\<close>), so that the present
  slots come first. The frame range of a slot and of a request are sets of frame numbers.
  \<open>ranges_fit\<close> says that no slot's range runs past the end of the 64-bit frame space: a
  slot written by the set-region operation has a base below \<open>2^52\<close> and fewer than \<open>2^31\<close>
  pages.
\<close>

definition sorted_by_size :: "kvm_memslots \<Rightarrow> bool" where
  "sorted_by_size slots = sorted_wrt (\<lambda>a b. npages b \<le> npages a) (memslots slots)"

definition slot_range :: "kvm_memory_slot \<Rightarrow> nat set" where
  "slot_range s = {unat (base_gfn s) ..< unat (base_gfn s) + unat (npages s)}"

definition region_range :: "kvm_userspace_memory_region \<Rightarrow> nat set" where
  "region_range mem =
     {unat (region_base_gfn mem) ..< unat (region_base_gfn mem) + unat (region_npages mem)}"

definition ranges_fit :: "kvm_memslots \<Rightarrow> bool" where
  "ranges_fit slots =
     list_all (\<lambda>s. unat (base_gfn s) + unat (npages s) < 2 ^ 64) (memslots slots)"

text \<open>
  Marking a list of frames dirty, one after the other; the bitmap that results from
  setting the bit of each frame relative to a base; and the invariant that a slot without
  the log-dirty flag has no bitmap.
\<close>

definition mark_pages_dirty :: "kvm_memslots \<Rightarrow> gfn_t list \<Rightarrow> kvm_memslots" where
  "mark_pages_dirty kvm gfns = fold (\<lambda>g k. mark_page_dirty k g) gfns kvm"

definition mark_bits :: "gfn_t \<Rightarrow> gfn_t list \<Rightarrow> ulong list \<Rightarrow> ulong list" where
  "mark_bits base gfns bm = fold (\<lambda>g b. set_bit_le (unat (g - base)) b) gfns bm"

definition no_bitmap_without_logging :: "kvm_memslots \<Rightarrow> bool" where
  "no_bitmap_without_logging kvm =
     list_all (\<lambda>s. flags s AND KVM_MEM_LOG_DIRTY_PAGES = 0 \<longrightarrow> dirty_bitmap s = None)
       (memslots kvm)"

section \<open>A small machine for the examples\<close>

text \<open>
  An invalidation state with one range invalidation in flight, and one with none (where
  an end event has no begin to match).
\<close>

definition inval_ex :: mmu_notifier_state where
  "inval_ex = \<lparr>mmu_notifier_seq = 5, mmu_notifier_count = 1\<rparr>"

definition inval_idle :: mmu_notifier_state where
  "inval_idle = \<lparr>mmu_notifier_seq = 5, mmu_notifier_count = 0\<rparr>"

text \<open>
  Two user slots and one private slot. In \<open>tbl_ex\<close> slot 1 holds the two frames 1 and 2,
  backed at host address \<open>0x10000\<close>; the other slots are empty.
\<close>

definition cfg_ex :: kvm_config where
  "cfg_ex = \<lparr>KVM_USER_MEM_SLOTS = 2, KVM_MEM_SLOTS_NUM = 3, KVM_CAP_READONLY_MEM = True,
              PAGE_OFFSET = 18446612132314218496\<rparr>"

definition empty_slot :: "nat \<Rightarrow> kvm_memory_slot" where
  "empty_slot i = \<lparr>base_gfn = 0, npages = 0, dirty_bitmap = None, userspace_addr = 0,
                    flags = 0, id_slot = i\<rparr>"

definition slot_ex :: kvm_memory_slot where
  "slot_ex = \<lparr>base_gfn = 1, npages = 2, dirty_bitmap = None, userspace_addr = 65536,
               flags = 0, id_slot = 1\<rparr>"

definition tbl_ex :: kvm_memslots where
  "tbl_ex = \<lparr>generation = 1, memslots = [slot_ex, empty_slot 0, empty_slot 2],
              id_to_index = [1, 0, 2]\<rparr>"

definition env_ok :: set_region_env where
  "env_ok = \<lparr>access_ok = True, kvm_arch_create_memslot = None, kvm_kvzalloc_ok = True,
              kmemdup_ok = True, kvm_arch_prepare_memory_region = None,
              kvm_iommu_map_pages = None\<rparr>"

text \<open>
  Requests on \<open>tbl_ex\<close>: delete slot 1; move slot 1 to frame 8; make slot 1 read-only with
  nothing else changed; repeat slot 1 as it is; create slot 0 on frame 2, which slot 1
  holds. \<open>tbl_inv\<close> is \<open>tbl_ex\<close> after a delete of slot 1 that failed in the
  architecture's prepare hook.
\<close>

definition delete_req :: kvm_userspace_memory_region where
  "delete_req = \<lparr>slot = 1, mem_flags = 0, guest_phys_addr = 0, memory_size = 0,
                  mem_userspace_addr = 0\<rparr>"

definition move_req :: kvm_userspace_memory_region where
  "move_req = \<lparr>slot = 1, mem_flags = 0, guest_phys_addr = 32768, memory_size = 8192,
                mem_userspace_addr = 65536\<rparr>"

definition readonly_req :: kvm_userspace_memory_region where
  "readonly_req = \<lparr>slot = 1, mem_flags = 2, guest_phys_addr = 4096, memory_size = 8192,
                    mem_userspace_addr = 65536\<rparr>"

definition same_req :: kvm_userspace_memory_region where
  "same_req = \<lparr>slot = 1, mem_flags = 0, guest_phys_addr = 4096, memory_size = 8192,
                mem_userspace_addr = 65536\<rparr>"

definition create_req :: kvm_userspace_memory_region where
  "create_req = \<lparr>slot = 0, mem_flags = 0, guest_phys_addr = 8192, memory_size = 4096,
                  mem_userspace_addr = 131072\<rparr>"

definition env_prepare_fails :: set_region_env where
  "env_prepare_fails = env_ok\<lparr>kvm_arch_prepare_memory_region := Some (EARCH 1)\<rparr>"

definition env_iommu_fails :: set_region_env where
  "env_iommu_fails = env_ok\<lparr>kvm_iommu_map_pages := Some ENOMEM\<rparr>"

definition tbl_inv :: kvm_memslots where
  "tbl_inv = \<lparr>generation = 2,
               memslots = [slot_ex\<lparr>flags := KVM_MEMSLOT_INVALID\<rparr>, empty_slot 0, empty_slot 2],
               id_to_index = [1, 0, 2]\<rparr>"

text \<open>
  A memory manager in which the page at host address \<open>0x10000\<close> is resident (frame 7) and
  nothing else is; and slot 1 of \<open>tbl_ex\<close> marked read-only.
\<close>

definition mm_ex :: mm_env where
  "mm_ex = \<lparr>gup_fast_atomic = (\<lambda>a. if a = 65536 then Some 7 else None),
             gup_fast_atomic_retry = (\<lambda>a. if a = 65536 then Some 7 else None),
             gup_nowait = (\<lambda>a w. Gup_other),
             gup_fast = (\<lambda>a w. Gup_other),
             check_user_page_hwpoison = (\<lambda>a. False),
             find_vma_intersection = (\<lambda>a. None),
             kvm_is_mmio_pfn = (\<lambda>p. False)\<rparr>"

text \<open>
  A memory manager in which that page is not resident at first: the fast pin misses, the
  slow pin for reading faults the page in, and the second fast pin then finds it.
\<close>

definition mm_fault_in :: mm_env where
  "mm_fault_in = mm_ex\<lparr>gup_fast_atomic := (\<lambda>a. None),
                        gup_nowait := (\<lambda>a w. if a = 65536 then Gup_one 7 else Gup_other)\<rparr>"

definition slot_ro :: kvm_memory_slot where
  "slot_ro = slot_ex\<lparr>flags := KVM_MEM_READONLY\<rparr>"

text \<open>
  A handle for eight bytes at guest address \<open>0x1000\<close> (frame 1, in slot 1 of \<open>tbl_ex\<close>),
  stamped at generation 0; and a host in which every copy to guest memory succeeds.
\<close>

definition ghc_ex :: gfn_to_hva_cache where
  "ghc_ex = \<lparr>ghc_generation = 0, ghc_gpa = 4096, ghc_hva = 0, ghc_len = 8,
              ghc_memslot = None\<rparr>"

definition copy_ok_ex :: "ulong \<Rightarrow> ulong \<Rightarrow> bool" where
  "copy_ok_ex a l = True"

text \<open>
  \<open>tbl_log\<close> is \<open>tbl_ex\<close> with dirty logging enabled on slot 1: its bitmap is the two
  zeroed longs that \<^verbatim>\<open>kvm_create_dirty_bitmap\<close> allocates for two pages.
\<close>

definition slot_log :: kvm_memory_slot where
  "slot_log = slot_ex\<lparr>flags := KVM_MEM_LOG_DIRTY_PAGES, dirty_bitmap := Some [0, 0]\<rparr>"

definition tbl_log :: kvm_memslots where
  "tbl_log = \<lparr>generation = 2, memslots = [slot_log, empty_slot 0, empty_slot 2],
               id_to_index = [1, 0, 2]\<rparr>"

text \<open>
  Two buses. On \<open>bus_layered\<close> device 1 has the range \<open>0x1000\<close> to \<open>0x1010\<close> and device 2
  the range \<open>0x1008\<close> to \<open>0x1018\<close>. On \<open>bus_nested\<close> device 1 has the range 0 to 100 and
  device 2 the range 10 to 15, which lies inside it. \<open>declines_all\<close> and \<open>accepts_all\<close> are
  device models that never and always handle an access, and \<open>only_dev\<close> one in which a
  single device does.
\<close>

definition bus_layered :: kvm_io_bus where
  "bus_layered = \<lparr>dev_count = 2,
                   io_range = [\<lparr>io_addr = 4096, io_len = 16, io_dev = 1\<rparr>,
                               \<lparr>io_addr = 4104, io_len = 16, io_dev = 2\<rparr>]\<rparr>"

definition bus_nested :: kvm_io_bus where
  "bus_nested = \<lparr>dev_count = 2,
                  io_range = [\<lparr>io_addr = 0, io_len = 100, io_dev = 1\<rparr>,
                              \<lparr>io_addr = 10, io_len = 5, io_dev = 2\<rparr>]\<rparr>"

definition declines_all :: "nat \<Rightarrow> gpa_t \<Rightarrow> cint \<Rightarrow> errno option" where
  "declines_all d a l = Some EOPNOTSUPP"

definition accepts_all :: "nat \<Rightarrow> gpa_t \<Rightarrow> cint \<Rightarrow> errno option" where
  "accepts_all d a l = None"

definition only_dev :: "nat \<Rightarrow> nat \<Rightarrow> gpa_t \<Rightarrow> cint \<Rightarrow> errno option" where
  "only_dev n d a l = (if d = n then None else Some EOPNOTSUPP)"

lemmas set_region_defs =
  kvm_set_memory_region'_def region_sanity_checks_def check_memory_region_flags_def
  PAGE_SIZE_def PAGE_SHIFT_def KVM_MEM_LOG_DIRTY_PAGES_def KVM_MEM_READONLY_def
  KVM_MEMSLOT_INVALID_def KVM_MEM_MAX_NR_PAGES_def id_to_memslot_def classify_change_def
  region_overlaps_def kvm_for_each_memslot_def set_region_apply_def install_new_memslots_def
  update_memslots_def sort_memslots_def sort_cmp_def cmp_memslot_def mark_slot_invalid_def
  kvm_create_dirty_bitmap_def kvm_dirty_bitmap_bytes_def region_base_gfn_def
  region_npages_def candidate_slot_def request_change_def Let_def

lemmas translation_defs =
  gfn_to_memslot_def search_memslots_def gfn_to_hva_many_def gfn_to_hva_many'_def slot_at_def
  memslot_is_readonly_def kvm_is_error_hva_def gfn_to_hva_memslot'_def gfn_to_hva_def
  KVM_HVA_ERR_BAD_def KVM_HVA_ERR_RO_BAD_def

lemmas io_defs = kvm_io_bus_write_def kvm_io_bus_read_def kvm_io_bus_get_first_dev_def
  bsearch_def kvm_io_bus_sort_cmp_def io_access_def dispatch_spec_def bus_ascending_def
  io_range_end_def bus_layered_def bus_nested_def declines_all_def accepts_all_def
  only_dev_def Let_def

lemmas example_defs = cfg_ex_def empty_slot_def slot_ex_def tbl_ex_def env_ok_def
  delete_req_def move_req_def readonly_req_def same_req_def create_req_def
  env_prepare_fails_def env_iommu_fails_def tbl_inv_def

section \<open>The invalidation handshake\<close>

subsection \<open>What a write fence orders\<close>

text \<open>
  For every program: the program order is one of the orders in which its stores may
  become visible; every such order contains exactly the stores issued; and when the
  program has a write fence, every such order is an order of the stores before the fence
  followed by an order of the stores after it. Without a fence between them, two stores
  to different counters may become visible in either order.
\<close>

lemma epochs_nonempty [simp]: "epochs ops \<noteq> []"
  by (induction ops rule: epochs.induct) simp_all

lemma epochs_append_wmb: "epochs (pre @ Smp_wmb # post) = epochs pre @ epochs post"
  by (induction pre rule: epochs.induct) simp_all

lemma concat_product_lists_append:
  "concat ` set (product_lists (xs @ ys)) =
     {a @ b |a b. a \<in> concat ` set (product_lists xs) \<and> b \<in> concat ` set (product_lists ys)}"
proof (rule set_eqI, rule iffI)
  fix z assume "z \<in> concat ` set (product_lists (xs @ ys))"
  then obtain r where r: "list_all2 (\<lambda>x ys. x \<in> set ys) r (xs @ ys)" and z: "z = concat r"
    by (auto simp: product_lists_set)
  from r obtain us vs where "r = us @ vs" "list_all2 (\<lambda>x ys. x \<in> set ys) us xs"
      "list_all2 (\<lambda>x ys. x \<in> set ys) vs ys"
    by (auto simp: list_all2_append2)
  then have "concat us \<in> concat ` set (product_lists xs)"
      "concat vs \<in> concat ` set (product_lists ys)" "z = concat us @ concat vs"
    using z by (auto simp: product_lists_set)
  then show "z \<in> {a @ b |a b. a \<in> concat ` set (product_lists xs) \<and>
                        b \<in> concat ` set (product_lists ys)}"
    by blast
next
  fix z assume "z \<in> {a @ b |a b. a \<in> concat ` set (product_lists xs) \<and>
                        b \<in> concat ` set (product_lists ys)}"
  then obtain us vs where us: "list_all2 (\<lambda>x ys. x \<in> set ys) us xs"
      and vs: "list_all2 (\<lambda>x ys. x \<in> set ys) vs ys" and z: "z = concat us @ concat vs"
    by (auto simp: product_lists_set)
  from us vs have "list_all2 (\<lambda>x ys. x \<in> set ys) (us @ vs) (xs @ ys)"
    by (rule list_all2_appendI)
  then have "us @ vs \<in> set (product_lists (xs @ ys))"
    by (simp add: product_lists_set)
  moreover have "z = concat (us @ vs)" using z by simp
  ultimately show "z \<in> concat ` set (product_lists (xs @ ys))" by blast
qed

lemma visible_orders_wmb:
  "set (visible_orders (pre @ Smp_wmb # post)) =
     {a @ b |a b. a \<in> set (visible_orders pre) \<and> b \<in> set (visible_orders post)}"
  by (simp add: visible_orders_def epochs_append_wmb concat_product_lists_append)

lemma insert_everywhere_set:
  "ys \<in> set (insert_everywhere x xs) \<Longrightarrow> set ys = insert x (set xs) \<and> length ys = Suc (length xs)"
  by (induction xs arbitrary: ys) auto

lemma permutations_set:
  "ys \<in> set (permutations xs) \<Longrightarrow> set ys = set xs \<and> length ys = length xs"
proof (induction xs arbitrary: ys)
  case Nil
  then show ?case by simp
next
  case (Cons x xs)
  then obtain p where "p \<in> set (permutations xs)" "ys \<in> set (insert_everywhere x p)" by auto
  with Cons.IH [of p] insert_everywhere_set [of ys x p] show ?case by auto
qed

lemma permutations_self: "xs \<in> set (permutations xs)"
proof (induction xs)
  case Nil
  then show ?case by simp
next
  case (Cons x xs)
  have "x # p \<in> set (insert_everywhere x p)" for p :: "'a list" by (cases p) simp_all
  with Cons show ?case by auto
qed

lemma epoch_orders_self: "xs \<in> set (epoch_orders xs)"
  by (simp add: epoch_orders_def permutations_self same_counter_in_order_def)

lemma program_order_visible: "issued_stores ops \<in> set (visible_orders ops)"
proof -
  have "es \<in> set (product_lists (map epoch_orders es))" for es
    by (induction es) (auto simp: epoch_orders_self)
  then show ?thesis by (auto simp: visible_orders_def issued_stores_def)
qed

lemma visible_orders_stores:
  assumes "ord \<in> set (visible_orders ops)"
  shows "set ord = set (issued_stores ops)"
proof -
  have "r \<in> set (product_lists (map epoch_orders es)) \<Longrightarrow> set (concat r) = set (concat es)" for r es
  proof (induction es arbitrary: r)
    case Nil
    then show ?case by simp
  next
    case (Cons e es)
    then obtain a r' where "r = a # r'" "a \<in> set (epoch_orders e)"
        "r' \<in> set (product_lists (map epoch_orders es))" by auto
    moreover from this have "set a = set e" using permutations_set [of a e]
      by (simp add: epoch_orders_def)
    ultimately show ?case using Cons.IH [of r'] by simp
  qed
  with assms show ?thesis by (auto simp: visible_orders_def issued_stores_def)
qed

lemma smp_wmb_orders_stores:
  assumes "ord \<in> set (visible_orders (pre @ Smp_wmb # post))"
  shows "\<exists>a b. ord = a @ b \<and> set a = set (issued_stores pre) \<and> set b = set (issued_stores post)"
  using assms visible_orders_stores unfolding visible_orders_wmb by blast

text \<open>
  The body of \<^verbatim>\<open>kvm_mmu_notifier_invalidate_range_end\<close> with the fence left out: the
  decremented count may then be seen while the sequence is still the old one.
\<close>

lemma count_first_without_barrier:
  "[(Count, b), (Seq, a)] \<in> set (visible_orders [Spin_lock, Store Seq a, Store Count b, Spin_unlock])"
  by (simp add: visible_orders_def epoch_orders_def same_counter_in_order_def)

lemma count_seen_with_old_sequence:
  "\<lparr>mmu_notifier_seq = s, mmu_notifier_count = c - 1\<rparr>
     \<in> set (visible_states \<lparr>mmu_notifier_seq = s, mmu_notifier_count = c\<rparr>
              [(Count, c - 1), (Seq, s + 1)])"
  by simp

lemma unbalanced_range_end_is_fatal:
  "snd (kvm_mmu_notifier_invalidate_range_end inval_idle) = Inl BUG"
  by (simp add: kvm_mmu_notifier_invalidate_range_end_def inval_idle_def Let_def
      word_sless_alt)

subsection \<open>The end of a range invalidation\<close>

text \<open>
  C2. On a range-invalidate-end the stores of the incremented sequence and of the
  decremented count can become visible to another processor in one order only, the
  sequence first: the write fence between them leaves no other order. So in every order
  the fence allows, a state in which a reader sees the decremented count has the
  incremented sequence. A count that is negative afterwards is fatal (\<open>BUG\<close>), and
  otherwise the function returns the final state; it never returns an error number.
\<close>

theorem range_end_seq_visible_before_count:
  "set (visible_orders (fst (kvm_mmu_notifier_invalidate_range_end kvm))) =
     {[(Seq, mmu_notifier_seq kvm + 1), (Count, mmu_notifier_count kvm - 1)]}
   \<and> (\<forall>ord \<in> set (visible_orders (fst (kvm_mmu_notifier_invalidate_range_end kvm))).
        \<forall>k \<in> set (visible_states kvm ord).
          mmu_notifier_count k = mmu_notifier_count kvm - 1 \<longrightarrow>
          mmu_notifier_seq k = mmu_notifier_seq kvm + 1)
   \<and> snd (kvm_mmu_notifier_invalidate_range_end kvm) =
       (if sint (mmu_notifier_count kvm - 1) < 0 then Inl BUG
        else Inr (kvm\<lparr>mmu_notifier_seq := mmu_notifier_seq kvm + 1,
                      mmu_notifier_count := mmu_notifier_count kvm - 1\<rparr>))"
  by (simp add: kvm_mmu_notifier_invalidate_range_end_def Let_def word_sless_alt
      visible_orders_def epoch_orders_def same_counter_in_order_def)

theorem range_end_seq_visible_before_count_witness:
  "[(Seq, 6), (Count, 0)] \<in> set (visible_orders (fst (kvm_mmu_notifier_invalidate_range_end inval_ex)))
   \<and> \<lparr>mmu_notifier_seq = 6, mmu_notifier_count = 0\<rparr>
       \<in> set (visible_states inval_ex [(Seq, 6), (Count, 0)])
   \<and> snd (kvm_mmu_notifier_invalidate_range_end inval_ex) =
       Inr \<lparr>mmu_notifier_seq = 6, mmu_notifier_count = 0\<rparr>"
  using range_end_seq_visible_before_count [of inval_ex]
  by (simp add: inval_ex_def)


section \<open>The set-region operation: failure, classification, overlap\<close>

subsection \<open>What a failed request leaves behind\<close>

lemma set_region_apply_failure:
  "set_region_apply cfg env kvm mem new change = (Some e, kvm') \<Longrightarrow>
     kvm' = kvm \<or>
     ((change = KVM_MR_DELETE \<or> change = KVM_MR_MOVE) \<and>
      kvm' = (mark_slot_invalid kvm (unat (slot mem)))\<lparr>generation := generation kvm + 1\<rparr>)"
  by (auto simp: set_region_apply_def install_new_memslots_def update_memslots_def Let_def
      split: if_splits option.splits prod.splits)

text \<open>
  A failed request leaves either the table it found, or (a delete or a move that fails
  after its transitional table went out) that table with the slot marked invalid and the
  generation advanced.
\<close>

lemma set_region_failure_table:
  "kvm_set_memory_region' cfg env kvm mem = (Some e, kvm') \<Longrightarrow>
     kvm' = kvm \<or>
     kvm' = (mark_slot_invalid kvm (unat (slot mem)))\<lparr>generation := generation kvm + 1\<rparr>"
  by (auto simp: kvm_set_memory_region'_def split: option.splits sum.splits if_splits
      dest: set_region_apply_failure)

text \<open>
  C1. A failed set-region request should leave the active table as it was. The code does
  so for every failure before the transitional table of a delete or a move is published.
  After that point it does not: here a delete of slot 1 fails in the architecture's
  prepare hook, and a move of slot 1 fails in the IOMMU mapping; both return the error,
  and the active table is the transitional one, with slot 1 marked invalid and the
  generation advanced from 1 to 2.
\<close>

theorem failed_delete_or_move_leaves_slot_invalid:
  "kvm_set_memory_region' cfg_ex env_prepare_fails tbl_ex delete_req = (Some (EARCH 1), tbl_inv)
   \<and> kvm_set_memory_region' cfg_ex env_iommu_fails tbl_ex move_req = (Some ENOMEM, tbl_inv)
   \<and> tbl_inv \<noteq> tbl_ex
   \<and> flags (id_to_memslot tbl_ex 1) = 0
   \<and> flags (id_to_memslot tbl_inv 1) = KVM_MEMSLOT_INVALID
   \<and> generation tbl_ex = 1 \<and> generation tbl_inv = 2"
  by (simp add: set_region_defs example_defs)

subsection \<open>The request that changes nothing\<close>

text \<open>
  C10. A request that passes the sanity checks and whose base frame, page count, host
  address and flags are those of the slot installed under its id (a present slot)
  returns success and leaves the active table, its generation and every slot as they
  were.
\<close>

theorem unchanged_request_is_noop:
  assumes "region_sanity_checks cfg env mem = None"
      and "npages (id_to_memslot kvm (unat (slot mem))) \<noteq> 0"
      and "base_gfn (id_to_memslot kvm (unat (slot mem))) = region_base_gfn mem"
      and "npages (id_to_memslot kvm (unat (slot mem))) = region_npages mem"
      and "userspace_addr (id_to_memslot kvm (unat (slot mem))) = mem_userspace_addr mem"
      and "flags (id_to_memslot kvm (unat (slot mem))) = mem_flags mem"
  shows "kvm_set_memory_region' cfg env kvm mem = (None, kvm)"
  using assms
  by (simp add: kvm_set_memory_region'_def request_change_def classify_change_def
      candidate_slot_def Let_def)

theorem unchanged_request_is_noop_witness:
  "region_sanity_checks cfg_ex env_ok same_req = None
   \<and> npages (id_to_memslot tbl_ex (unat (slot same_req))) \<noteq> 0
   \<and> base_gfn (id_to_memslot tbl_ex (unat (slot same_req))) = region_base_gfn same_req
   \<and> npages (id_to_memslot tbl_ex (unat (slot same_req))) = region_npages same_req
   \<and> userspace_addr (id_to_memslot tbl_ex (unat (slot same_req))) = mem_userspace_addr same_req
   \<and> flags (id_to_memslot tbl_ex (unat (slot same_req))) = mem_flags same_req
   \<and> kvm_set_memory_region' cfg_ex env_ok tbl_ex same_req = (None, tbl_ex)"
proof -
  have h: "region_sanity_checks cfg_ex env_ok same_req = None"
    "npages (id_to_memslot tbl_ex (unat (slot same_req))) \<noteq> 0"
    "base_gfn (id_to_memslot tbl_ex (unat (slot same_req))) = region_base_gfn same_req"
    "npages (id_to_memslot tbl_ex (unat (slot same_req))) = region_npages same_req"
    "userspace_addr (id_to_memslot tbl_ex (unat (slot same_req))) = mem_userspace_addr same_req"
    "flags (id_to_memslot tbl_ex (unat (slot same_req))) = mem_flags same_req"
    by (simp_all add: set_region_defs example_defs)
  from unchanged_request_is_noop [OF h] h show ?thesis by simp
qed

subsection \<open>Classification\<close>

text \<open>
  C4, as the claim states it, fails: a request on the present slot 1 that keeps its host
  address, its size and its base and only sets the read-only flag passes the sanity
  checks and is rejected with \<^verbatim>\<open>-EINVAL\<close>, though it neither changes the host address nor
  resizes.
\<close>

theorem readonly_toggle_rejected:
  "region_sanity_checks cfg_ex env_ok readonly_req = None
   \<and> mem_userspace_addr readonly_req = userspace_addr (id_to_memslot tbl_ex 1)
   \<and> region_npages readonly_req = npages (id_to_memslot tbl_ex 1)
   \<and> request_change tbl_ex readonly_req = Inl EINVAL
   \<and> kvm_set_memory_region' cfg_ex env_ok tbl_ex readonly_req = (Some EINVAL, tbl_ex)"
  by (simp add: set_region_defs example_defs)

text \<open>
  C4, amended. The classification compares the candidate with the old slot of the id. It
  is CREATE exactly when the old slot is empty and pages are requested; DELETE exactly
  when the old slot is present and no pages are requested; for a present slot and a
  request with pages, it is rejected exactly when the host address changes, or the size
  changes, or the read-only flag is toggled, and otherwise it is MOVE when the base
  changes, FLAGS_ONLY when the base stays and the flags change, and no change at all
  (success, nothing classified) when everything stays; a request for no pages on an
  empty slot is rejected. Every rejection is \<^verbatim>\<open>-EINVAL\<close>.
\<close>

theorem classify_change_cases:
  "(classify_change old uaddr new = Inr (Some KVM_MR_CREATE)) =
     (npages old = 0 \<and> npages new \<noteq> 0)
   \<and> (classify_change old uaddr new = Inr (Some KVM_MR_DELETE)) =
     (npages old \<noteq> 0 \<and> npages new = 0)
   \<and> (classify_change old uaddr new = Inr (Some KVM_MR_MOVE)) =
     (npages old \<noteq> 0 \<and> npages new = npages old \<and> uaddr = userspace_addr old \<and>
      (flags new XOR flags old) AND KVM_MEM_READONLY = 0 \<and> base_gfn new \<noteq> base_gfn old)
   \<and> (classify_change old uaddr new = Inr (Some KVM_MR_FLAGS_ONLY)) =
     (npages old \<noteq> 0 \<and> npages new = npages old \<and> uaddr = userspace_addr old \<and>
      (flags new XOR flags old) AND KVM_MEM_READONLY = 0 \<and> base_gfn new = base_gfn old \<and>
      flags new \<noteq> flags old)
   \<and> (classify_change old uaddr new = Inr None) =
     (npages old \<noteq> 0 \<and> npages new = npages old \<and> uaddr = userspace_addr old \<and>
      base_gfn new = base_gfn old \<and> flags new = flags old)
   \<and> (classify_change old uaddr new = Inl e) =
     (e = EINVAL \<and>
      (npages old = 0 \<and> npages new = 0 \<or>
       npages old \<noteq> 0 \<and> npages new \<noteq> 0 \<and>
       (uaddr \<noteq> userspace_addr old \<or> npages new \<noteq> npages old \<or>
        (flags new XOR flags old) AND KVM_MEM_READONLY \<noteq> 0)))"
  by (auto simp: classify_change_def)

theorem classify_change_cases_witness:
  "classify_change slot_ex 65536 (slot_ex\<lparr>base_gfn := 8\<rparr>) = Inr (Some KVM_MR_MOVE)
   \<and> classify_change slot_ex 65536 (slot_ex\<lparr>flags := 1\<rparr>) = Inr (Some KVM_MR_FLAGS_ONLY)
   \<and> classify_change slot_ex 4096 (slot_ex\<lparr>base_gfn := 8\<rparr>) = Inl EINVAL"
  using classify_change_cases [of slot_ex 65536 "slot_ex\<lparr>base_gfn := 8\<rparr>" EINVAL]
    classify_change_cases [of slot_ex 65536 "slot_ex\<lparr>flags := 1\<rparr>" EINVAL]
    classify_change_cases [of slot_ex 4096 "slot_ex\<lparr>base_gfn := 8\<rparr>" EINVAL]
  by (simp add: slot_ex_def KVM_MEM_READONLY_def)

subsection \<open>The overlap check\<close>

lemma takeWhile_present:
  "sorted_wrt (\<lambda>a b. npages b \<le> npages a) xs \<Longrightarrow>
     takeWhile (\<lambda>s. npages s \<noteq> 0) xs = filter (\<lambda>s. npages s \<noteq> 0) (xs :: kvm_memory_slot list)"
proof (induction xs)
  case Nil
  then show ?case by simp
next
  case (Cons x xs)
  show ?case
  proof (cases "npages x = 0")
    case True
    with Cons.prems have "\<forall>y\<in>set xs. npages y = 0" by auto
    then have "filter (\<lambda>s. npages s \<noteq> 0) xs = []" by (simp add: filter_empty_conv)
    with True show ?thesis by simp
  next
    case False
    with Cons show ?thesis by simp
  qed
qed

lemma unat_drop_bit_12: "unat (drop_bit 12 (w :: 64 word)) < 2 ^ 52"
proof -
  have "unat w < 2 ^ 64" using unsigned_less [of w] by simp
  then have "unat w div 2 ^ 12 < 2 ^ 52" by (simp add: less_mult_imp_div_less)
  then show ?thesis by (simp add: unat_drop_bit_eq drop_bit_eq_div unat_div)
qed

lemma region_range_fits:
  "unat (region_base_gfn mem) + unat (region_npages mem) < 2 ^ 64"
  using unat_drop_bit_12 [of "guest_phys_addr mem"] unat_drop_bit_12 [of "memory_size mem"]
  by (simp add: region_base_gfn_def region_npages_def PAGE_SHIFT_def)

lemma word_ranges_overlap:
  fixes b n b' n' :: "64 word"
  assumes "unat b + unat n < 2 ^ 64" "unat b' + unat n' < 2 ^ 64" "n \<noteq> 0" "n' \<noteq> 0"
  shows "(\<not> (b + n \<le> b' \<or> b \<ge> b' + n')) =
         ({unat b ..< unat b + unat n} \<inter> {unat b' ..< unat b' + unat n'} \<noteq> {})"
proof -
  have 1: "unat (b + n) = unat b + unat n" using assms(1) unat_add_lem [of b n] by simp
  have 2: "unat (b' + n') = unat b' + unat n'" using assms(2) unat_add_lem [of b' n'] by simp
  have 3: "0 < unat n" "0 < unat n'" using assms(3,4) by (simp_all add: unat_gt_0)
  show ?thesis
    using 3 by (auto simp add: word_le_nat_alt 1 2 Int_atLeastLessThan)
qed

lemma region_overlaps_iff:
  assumes "sorted_by_size kvm" "ranges_fit kvm" "region_npages mem \<noteq> 0"
  shows "region_overlaps cfg kvm (unat (slot mem)) (region_base_gfn mem) (region_npages mem) =
         (\<exists>s\<in>set (memslots kvm). npages s \<noteq> 0 \<and> id_slot s < KVM_USER_MEM_SLOTS cfg \<and>
             id_slot s \<noteq> unat (slot mem) \<and> region_range mem \<inter> slot_range s \<noteq> {})"
proof -
  have tw: "kvm_for_each_memslot kvm = filter (\<lambda>s. npages s \<noteq> 0) (memslots kvm)"
    using assms(1) by (simp add: kvm_for_each_memslot_def sorted_by_size_def takeWhile_present)
  have ov: "(\<not> (region_base_gfn mem + region_npages mem \<le> base_gfn s \<or>
                 region_base_gfn mem \<ge> base_gfn s + npages s)) =
            (region_range mem \<inter> slot_range s \<noteq> {})"
    if "s \<in> set (memslots kvm)" "npages s \<noteq> 0" for s
  proof -
    from that(1) assms(2) have "unat (base_gfn s) + unat (npages s) < 2 ^ 64"
      by (simp add: ranges_fit_def list_all_iff)
    then show ?thesis
      unfolding region_range_def slot_range_def
      by (rule word_ranges_overlap [OF region_range_fits _ assms(3) that(2)])
  qed
  show ?thesis
    unfolding region_overlaps_def tw list_ex_iff
    using ov by auto
qed

text \<open>
  C3, as the claim states it, fails in its second half: the check does not look at the
  invalid mark. In \<open>tbl_inv\<close> (the table a failed delete of slot 1 leaves) slot 1 is marked
  invalid and no other user slot is present, so the new range of a CREATE on slot 0 is
  disjoint from every other user slot that is not marked invalid; yet the request is
  refused with \<^verbatim>\<open>-EEXIST\<close>, because frame 2 lies in the range of the invalid slot 1.
\<close>

theorem overlap_with_invalid_slot_refused:
  "snd (kvm_set_memory_region' cfg_ex env_prepare_fails tbl_ex delete_req) = tbl_inv
   \<and> region_sanity_checks cfg_ex env_ok create_req = None
   \<and> request_change tbl_inv create_req = Inr (Some KVM_MR_CREATE)
   \<and> filter (\<lambda>s. flags s AND KVM_MEMSLOT_INVALID = 0 \<and> npages s \<noteq> 0 \<and>
                  id_slot s < KVM_USER_MEM_SLOTS cfg_ex \<and> id_slot s \<noteq> unat (slot create_req))
        (memslots tbl_inv) = []
   \<and> kvm_set_memory_region' cfg_ex env_ok tbl_inv create_req = (Some EEXIST, tbl_inv)"
  by (simp add: set_region_defs example_defs word_le_nat_alt)

text \<open>
  C3, amended. For a CREATE or MOVE request on a table that is sorted by size and whose
  ranges fit the frame space: if the new frame range intersects the range of some other
  present user slot, whether or not that slot is marked invalid, the operation fails with
  \<^verbatim>\<open>-EEXIST\<close> and the active table is unchanged; if it is disjoint from the range of every
  other present user slot, the check passes and the operation goes on to build and
  publish the new table.
\<close>

theorem overlap_check_all_user_slots:
  assumes "region_sanity_checks cfg env mem = None"
      and "request_change kvm mem = Inr (Some change)"
      and "change = KVM_MR_CREATE \<or> change = KVM_MR_MOVE"
      and "sorted_by_size kvm" and "ranges_fit kvm"
  shows "kvm_set_memory_region' cfg env kvm mem =
           (if \<exists>s\<in>set (memslots kvm). npages s \<noteq> 0 \<and> id_slot s < KVM_USER_MEM_SLOTS cfg \<and>
                 id_slot s \<noteq> unat (slot mem) \<and> region_range mem \<inter> slot_range s \<noteq> {}
            then (Some EEXIST, kvm)
            else set_region_apply cfg env kvm mem (candidate_slot kvm mem) change)"
proof -
  from assms(2,3) have "npages (candidate_slot kvm mem) \<noteq> 0"
    by (auto simp: request_change_def classify_change_def split: if_splits)
  then have np: "region_npages mem \<noteq> 0"
    by (simp add: candidate_slot_def Let_def)
  show ?thesis
    using assms(1,2,3) region_overlaps_iff [OF assms(4,5) np, of cfg]
    by (simp add: kvm_set_memory_region'_def)
qed

theorem overlap_check_all_user_slots_witness:
  "region_sanity_checks cfg_ex env_ok create_req = None
   \<and> request_change tbl_ex create_req = Inr (Some KVM_MR_CREATE)
   \<and> sorted_by_size tbl_ex \<and> ranges_fit tbl_ex
   \<and> (\<exists>s\<in>set (memslots tbl_ex). npages s \<noteq> 0 \<and> id_slot s < KVM_USER_MEM_SLOTS cfg_ex \<and>
         id_slot s \<noteq> unat (slot create_req) \<and> region_range create_req \<inter> slot_range s \<noteq> {})
   \<and> kvm_set_memory_region' cfg_ex env_ok tbl_ex create_req = (Some EEXIST, tbl_ex)"
proof -
  have h: "region_sanity_checks cfg_ex env_ok create_req = None"
    "request_change tbl_ex create_req = Inr (Some KVM_MR_CREATE)"
    "KVM_MR_CREATE = KVM_MR_CREATE \<or> KVM_MR_CREATE = KVM_MR_MOVE"
    "sorted_by_size tbl_ex" "ranges_fit tbl_ex"
    by (simp_all add: set_region_defs example_defs sorted_by_size_def ranges_fit_def)
  have r: "region_range create_req \<inter> slot_range slot_ex \<noteq> {}"
    by (simp add: region_range_def slot_range_def set_region_defs example_defs
        Int_atLeastLessThan)
  have ex: "\<exists>s\<in>set (memslots tbl_ex). npages s \<noteq> 0 \<and> id_slot s < KVM_USER_MEM_SLOTS cfg_ex \<and>
         id_slot s \<noteq> unat (slot create_req) \<and> region_range create_req \<inter> slot_range s \<noteq> {}"
    using r by (simp add: tbl_ex_def cfg_ex_def create_req_def slot_ex_def)
  from overlap_check_all_user_slots [OF h] ex h show ?thesis by simp
qed


section \<open>Translation\<close>

subsection \<open>The fast path\<close>

text \<open>
  C7. \<^verbatim>\<open>hva_to_pfn_fast\<close> returns a pinned frame only when the caller asked for atomic or
  asynchronous behaviour and either the access is a write fault or the caller passed a
  \<^verbatim>\<open>writable\<close> cell; then it has made the one non-blocking pin, the frame is the pinned
  page's, and the cell, if there is one, says writable. In every other case it reports
  failure, leaves the cell and the frame alone and calls nothing. When it succeeds,
  \<^verbatim>\<open>hva_to_pfn\<close> returns its frame without going to the slow path.
\<close>

theorem hva_to_pfn_fast_conditions:
  "(case hva_to_pfn_fast mm addr atomic async write_fault writable pfn of
      (ok, writable', pfn', calls) \<Rightarrow>
        (ok \<longrightarrow>
           (atomic \<or> async \<noteq> None) \<and> (write_fault \<or> writable \<noteq> None) \<and>
           writable' = map_option (\<lambda>_. True) writable \<and>
           gup_fast_atomic mm addr = Some pfn' \<and>
           calls = [Call_gup_fast_atomic addr] \<and>
           (\<not> (atomic \<and> async \<noteq> None) \<longrightarrow>
              hva_to_pfn mm addr atomic async write_fault writable =
                Inr \<lparr>res_pfn = the (gup_fast_atomic mm addr), res_async = async,
                     res_writable = map_option (\<lambda>_. True) writable,
                     res_calls = [Call_gup_fast_atomic addr]\<rparr>)) \<and>
        (\<not> ((atomic \<or> async \<noteq> None) \<and> (write_fault \<or> writable \<noteq> None)) \<longrightarrow>
           \<not> ok \<and> writable' = writable \<and> pfn' = pfn \<and> calls = []))"
  by (auto simp: hva_to_pfn_fast_def hva_to_pfn_def split: option.splits)

theorem hva_to_pfn_fast_conditions_witness:
  "hva_to_pfn_fast mm_ex 65536 True None False (Some False) 0 =
     (True, Some True, 7, [Call_gup_fast_atomic 65536])
   \<and> hva_to_pfn mm_ex 65536 True None False (Some False) =
     Inr \<lparr>res_pfn = 7, res_async = None, res_writable = Some True,
          res_calls = [Call_gup_fast_atomic 65536]\<rparr>
   \<and> hva_to_pfn_fast mm_ex 65536 False None True (Some False) 0 = (False, Some False, 0, [])
   \<and> hva_to_pfn_fast mm_ex 65536 True None False None 0 = (False, None, 0, [])"
  using hva_to_pfn_fast_conditions [where mm = mm_ex and addr = 65536 and atomic = True
      and async = None and write_fault = False and writable = "Some False" and pfn = 0]
    hva_to_pfn_fast_conditions [where mm = mm_ex and addr = 65536 and atomic = False
      and async = None and write_fault = True and writable = "Some False" and pfn = 0]
    hva_to_pfn_fast_conditions [where mm = mm_ex and addr = 65536 and atomic = True
      and async = None and write_fault = False and writable = None and pfn = 0]
  by (simp add: hva_to_pfn_fast_def hva_to_pfn_def mm_ex_def)

text \<open>
  After a miss of the fast path the slow path pins the page for reading and asks once
  more for a writable pin; when that succeeds the read pin is dropped and the mapping is
  reported writable.
\<close>

lemma slow_path_upgrades_to_writable:
  "hva_to_pfn mm_fault_in 65536 False (Some False) False (Some False) =
     Inr \<lparr>res_pfn = 7, res_async = Some False, res_writable = Some True,
          res_calls = [Call_gup_fast_atomic 65536, Call_gup_nowait 65536 False,
                       Call_gup_fast_atomic 65536, Call_put_page 7]\<rparr>"
  by (auto simp add: hva_to_pfn_def hva_to_pfn_fast_def hva_to_pfn_slow_def mm_fault_in_def
      mm_ex_def Let_def)

subsection \<open>Read-only and missing slots\<close>

lemma hva_errors_distinct: "KVM_HVA_ERR_RO_BAD cfg \<noteq> KVM_HVA_ERR_BAD cfg"
  by (simp add: KVM_HVA_ERR_RO_BAD_def KVM_HVA_ERR_BAD_def PAGE_SIZE_def)

lemma pfn_errors_distinct: "KVM_PFN_ERR_RO_FAULT \<noteq> KVM_PFN_NOSLOT"
  by (simp add: KVM_PFN_ERR_RO_FAULT_def KVM_PFN_NOSLOT_def KVM_PFN_ERR_MASK_def)

lemma readonly_slot_write:
  "slot_p = Some s \<Longrightarrow> flags s AND KVM_MEMSLOT_INVALID = 0 \<Longrightarrow> memslot_is_readonly s \<Longrightarrow>
   gfn_to_hva_many' cfg slot_p gfn want_nr True = (KVM_HVA_ERR_RO_BAD cfg, None) \<and>
   gfn_to_pfn_memslot' cfg mm slot_p gfn atomic async True writable =
     Inr \<lparr>res_pfn = KVM_PFN_ERR_RO_FAULT, res_async = async, res_writable = writable,
          res_calls = []\<rparr>"
  by (simp add: gfn_to_hva_many'_def gfn_to_pfn_memslot'_def)

lemma missing_or_invalid_slot:
  "slot_p = None \<or> (\<exists>s. slot_p = Some s \<and> flags s AND KVM_MEMSLOT_INVALID \<noteq> 0) \<Longrightarrow>
   gfn_to_hva_many' cfg slot_p gfn want_nr write_fault = (KVM_HVA_ERR_BAD cfg, None) \<and>
   gfn_to_pfn_memslot' cfg mm slot_p gfn atomic async write_fault writable =
     Inr \<lparr>res_pfn = KVM_PFN_NOSLOT, res_async = async, res_writable = writable,
          res_calls = []\<rparr>"
  using hva_errors_distinct [of cfg]
  by (auto simp: gfn_to_hva_many'_def gfn_to_pfn_memslot'_def kvm_is_error_hva_def
      KVM_HVA_ERR_BAD_def)

text \<open>
  C8. A translation with write intent of a frame that resolves to a slot marked read-only
  (and not marked invalid) returns the permission error: \<^verbatim>\<open>KVM_HVA_ERR_RO_BAD\<close> from
  \<^verbatim>\<open>__gfn_to_hva_many\<close>, \<^verbatim>\<open>KVM_PFN_ERR_RO_FAULT\<close> from \<^verbatim>\<open>__gfn_to_pfn_memslot\<close>. A frame
  that lies in no slot, or in a slot marked invalid, gets the no-mapping error
  (\<^verbatim>\<open>KVM_HVA_ERR_BAD\<close>, \<^verbatim>\<open>KVM_PFN_NOSLOT\<close>), also from \<^verbatim>\<open>__gfn_to_pfn\<close> after the lookup. The
  two error values are distinct, and in both cases no call into the memory manager is
  made: nothing is pinned.
\<close>

theorem readonly_and_missing_slot_errors:
  "(slot_p = Some s \<and> flags s AND KVM_MEMSLOT_INVALID = 0 \<and> memslot_is_readonly s \<longrightarrow>
      fst (gfn_to_hva_many' cfg slot_p gfn want_nr True) = KVM_HVA_ERR_RO_BAD cfg \<and>
      gfn_to_pfn_memslot' cfg mm slot_p gfn atomic async True writable =
        Inr \<lparr>res_pfn = KVM_PFN_ERR_RO_FAULT, res_async = async, res_writable = writable,
             res_calls = []\<rparr>)
   \<and> (slot_p = None \<or> (\<exists>s'. slot_p = Some s' \<and> flags s' AND KVM_MEMSLOT_INVALID \<noteq> 0) \<longrightarrow>
      fst (gfn_to_hva_many' cfg slot_p gfn want_nr write_fault) = KVM_HVA_ERR_BAD cfg \<and>
      gfn_to_pfn_memslot' cfg mm slot_p gfn atomic async write_fault writable =
        Inr \<lparr>res_pfn = KVM_PFN_NOSLOT, res_async = async, res_writable = writable,
             res_calls = []\<rparr>)
   \<and> (gfn_to_memslot kvm gfn = None \<longrightarrow>
      gfn_to_pfn' cfg mm kvm gfn atomic async write_fault writable =
        Inr \<lparr>res_pfn = KVM_PFN_NOSLOT, res_async = map_option (\<lambda>_. False) async,
             res_writable = writable, res_calls = []\<rparr>)
   \<and> KVM_HVA_ERR_RO_BAD cfg \<noteq> KVM_HVA_ERR_BAD cfg
   \<and> KVM_PFN_ERR_RO_FAULT \<noteq> KVM_PFN_NOSLOT"
proof -
  have a: "slot_p = Some s \<and> flags s AND KVM_MEMSLOT_INVALID = 0 \<and> memslot_is_readonly s \<longrightarrow>
      fst (gfn_to_hva_many' cfg slot_p gfn want_nr True) = KVM_HVA_ERR_RO_BAD cfg \<and>
      gfn_to_pfn_memslot' cfg mm slot_p gfn atomic async True writable =
        Inr \<lparr>res_pfn = KVM_PFN_ERR_RO_FAULT, res_async = async, res_writable = writable,
             res_calls = []\<rparr>"
    using readonly_slot_write [of slot_p s cfg gfn want_nr mm atomic async writable] by simp
  have b: "slot_p = None \<or> (\<exists>s'. slot_p = Some s' \<and> flags s' AND KVM_MEMSLOT_INVALID \<noteq> 0) \<longrightarrow>
      fst (gfn_to_hva_many' cfg slot_p gfn want_nr write_fault) = KVM_HVA_ERR_BAD cfg \<and>
      gfn_to_pfn_memslot' cfg mm slot_p gfn atomic async write_fault writable =
        Inr \<lparr>res_pfn = KVM_PFN_NOSLOT, res_async = async, res_writable = writable,
             res_calls = []\<rparr>"
    using missing_or_invalid_slot [of slot_p cfg gfn want_nr write_fault mm atomic async writable]
    by simp
  have c: "gfn_to_memslot kvm gfn = None \<longrightarrow>
      gfn_to_pfn' cfg mm kvm gfn atomic async write_fault writable =
        Inr \<lparr>res_pfn = KVM_PFN_NOSLOT, res_async = map_option (\<lambda>_. False) async,
             res_writable = writable, res_calls = []\<rparr>"
    using missing_or_invalid_slot [of None cfg gfn False write_fault mm atomic
        "map_option (\<lambda>_. False) async" writable]
    by (simp add: gfn_to_pfn'_def slot_at_def)
  from a b c hva_errors_distinct pfn_errors_distinct show ?thesis by blast
qed

theorem readonly_and_missing_slot_errors_witness:
  "memslot_is_readonly slot_ro \<and> flags slot_ro AND KVM_MEMSLOT_INVALID = 0
   \<and> gfn_to_pfn_memslot' cfg_ex mm_ex (Some slot_ro) 1 False None True None =
       Inr \<lparr>res_pfn = KVM_PFN_ERR_RO_FAULT, res_async = None, res_writable = None,
            res_calls = []\<rparr>
   \<and> gfn_to_pfn_memslot' cfg_ex mm_ex None 1 False None True None =
       Inr \<lparr>res_pfn = KVM_PFN_NOSLOT, res_async = None, res_writable = None, res_calls = []\<rparr>
   \<and> gfn_to_memslot tbl_ex 9 = None
   \<and> gfn_to_pfn' cfg_ex mm_ex tbl_ex 9 False None True None =
       Inr \<lparr>res_pfn = KVM_PFN_NOSLOT, res_async = None, res_writable = None, res_calls = []\<rparr>"
proof -
  have h: "memslot_is_readonly slot_ro" "flags slot_ro AND KVM_MEMSLOT_INVALID = 0"
    "gfn_to_memslot tbl_ex 9 = None"
    by (simp_all add: slot_ro_def slot_ex_def memslot_is_readonly_def KVM_MEM_READONLY_def
        KVM_MEMSLOT_INVALID_def gfn_to_memslot_def search_memslots_def tbl_ex_def empty_slot_def)
  from h readonly_and_missing_slot_errors
    [where slot_p = "Some slot_ro" and s = slot_ro and cfg = cfg_ex and gfn = 1
      and want_nr = False and mm = mm_ex and atomic = False and async = None
      and writable = None and write_fault = True and kvm = tbl_ex]
    readonly_and_missing_slot_errors
    [where slot_p = None and s = slot_ro and cfg = cfg_ex and gfn = 1
      and want_nr = False and mm = mm_ex and atomic = False and async = None
      and writable = None and write_fault = True and kvm = tbl_ex]
    readonly_and_missing_slot_errors
    [where slot_p = None and s = slot_ro and cfg = cfg_ex and gfn = 9
      and want_nr = False and mm = mm_ex and atomic = False and async = None
      and writable = None and write_fault = True and kvm = tbl_ex]
  show ?thesis by simp
qed


section \<open>Generations and the cached handle\<close>

lemma hva_cache_init_walk_keeps:
  "ghc_generation (snd (hva_cache_init_walk cfg kvm start_gfn end_gfn ghc)) = ghc_generation ghc \<and>
   ghc_gpa (snd (hva_cache_init_walk cfg kvm start_gfn end_gfn ghc)) = ghc_gpa ghc \<and>
   ghc_len (snd (hva_cache_init_walk cfg kvm start_gfn end_gfn ghc)) = ghc_len ghc"
proof (induction cfg kvm start_gfn end_gfn ghc rule: hva_cache_init_walk.induct)
  case (1 cfg kvm start_gfn end_gfn ghc)
  note unfold = hva_cache_init_walk.simps [of cfg kvm start_gfn end_gfn ghc]
  show ?case
  proof (cases "start_gfn \<le> end_gfn")
    case False
    then show ?thesis by (simp add: unfold)
  next
    case True
    obtain m hva nr where p: "hva_cache_probe cfg kvm start_gfn = (m, hva, nr)"
      by (cases "hva_cache_probe cfg kvm start_gfn") auto
    show ?thesis
    proof (cases "kvm_is_error_hva cfg hva \<or> nr = None")
      case True
      with \<open>start_gfn \<le> end_gfn\<close> p show ?thesis by (auto simp: unfold)
    next
      case False
      then obtain n where n: "nr = Some n" by auto
      from False have ne: "\<not> kvm_is_error_hva cfg hva" by simp
      from "1.IH" [OF True p [symmetric] refl ne n]
      show ?thesis using True p ne n by (simp add: unfold)
    qed
  qed
qed

text \<open>Initialising a handle stamps it with the active table's generation.\<close>

lemma cache_init_stamps:
  "ghc_generation (snd (kvm_gfn_to_hva_cache_init cfg kvm ghc gpa len)) = generation kvm \<and>
   ghc_gpa (snd (kvm_gfn_to_hva_cache_init cfg kvm ghc gpa len)) = gpa \<and>
   ghc_len (snd (kvm_gfn_to_hva_cache_init cfg kvm ghc gpa len)) = len"
  by (simp add: kvm_gfn_to_hva_cache_init_def Let_def hva_cache_init_walk_keeps)

lemma install_generation:
  "generation (fst (install_new_memslots cfg kvm slots new)) = generation kvm + 1"
  by (simp add: install_new_memslots_def update_memslots_def Let_def)

lemma word_succ_less: "(g :: 64 word) \<noteq> - 1 \<Longrightarrow> g < g + 1"
  using inc_less_eq_self_iff_eq [of g] by auto

lemma set_region_apply_success_generation:
  "set_region_apply cfg env kvm mem new change = (None, kvm') \<Longrightarrow>
     generation kvm' = generation kvm + 1 \<or> generation kvm' = generation kvm + 2"
  by (auto simp: set_region_apply_def install_new_memslots_def update_memslots_def Let_def
      split: if_splits option.splits prod.splits)

text \<open>
  A successful set-region request publishes nothing (the request that changes nothing),
  one table, or two (the transitional and the final table of a delete or a move).
\<close>

lemma set_region_success_generation:
  "kvm_set_memory_region' cfg env kvm mem = (None, kvm') \<Longrightarrow>
     kvm' = kvm \<or> generation kvm' = generation kvm + 1 \<or> generation kvm' = generation kvm + 2"
  by (auto simp: kvm_set_memory_region'_def split: option.splits sum.splits if_splits
      dest: set_region_apply_success_generation)

lemma cached_write_reinit:
  assumes "generation kvm \<noteq> ghc_generation ghc"
  shows "kvm_write_guest_cached cfg cu kvm ghc len =
         kvm_write_guest_cached cfg cu kvm
           (snd (kvm_gfn_to_hva_cache_init cfg kvm ghc (ghc_gpa ghc) (ghc_len ghc))) len"
  using assms cache_init_stamps [of cfg kvm ghc "ghc_gpa ghc" "ghc_len ghc"]
  by (simp add: kvm_write_guest_cached_def Let_def)

lemma cached_write_handle_generation:
  "kvm_write_guest_cached cfg cu kvm ghc len = Inr (r, kvm', ghc') \<Longrightarrow>
     ghc_generation ghc' = generation kvm"
  using cache_init_stamps [of cfg kvm ghc "ghc_gpa ghc" "ghc_len ghc"]
  by (auto simp: kvm_write_guest_cached_def Let_def split: if_splits option.splits)

text \<open>
  C9. Every publish (\<^verbatim>\<open>install_new_memslots\<close>) stamps the new table with the active
  table's generation plus one, so the generation grows with every publish as long as the
  64-bit counter has not reached its last value. A cached handle whose generation differs
  from the active table's is initialised again from its own address and length before it
  is used: the write behaves as the write through the re-initialised handle, and the
  handle it leaves carries the active generation.
\<close>

theorem generation_bumped_and_cache_revalidated:
  "generation (fst (install_new_memslots cfg kvm slots new)) = generation kvm + 1
   \<and> (generation kvm \<noteq> - 1 \<longrightarrow>
        generation kvm < generation (fst (install_new_memslots cfg kvm slots new)))
   \<and> (generation kvm \<noteq> ghc_generation ghc \<longrightarrow>
        kvm_write_guest_cached cfg cu kvm ghc len =
        kvm_write_guest_cached cfg cu kvm
          (snd (kvm_gfn_to_hva_cache_init cfg kvm ghc (ghc_gpa ghc) (ghc_len ghc))) len)
   \<and> ghc_generation (snd (kvm_gfn_to_hva_cache_init cfg kvm ghc (ghc_gpa ghc) (ghc_len ghc)))
       = generation kvm
   \<and> (\<forall>r kvm' ghc'. kvm_write_guest_cached cfg cu kvm ghc len = Inr (r, kvm', ghc') \<longrightarrow>
        ghc_generation ghc' = generation kvm)"
  using install_generation [of cfg kvm slots new] word_succ_less [of "generation kvm"]
    cached_write_reinit [of kvm ghc cfg cu len]
    cache_init_stamps [of cfg kvm ghc "ghc_gpa ghc" "ghc_len ghc"]
    cached_write_handle_generation [of cfg cu kvm ghc len]
  by auto

theorem generation_bumped_and_cache_revalidated_witness:
  "generation tbl_ex \<noteq> - 1
   \<and> generation tbl_ex < generation (fst (install_new_memslots cfg_ex tbl_ex tbl_ex None))
   \<and> generation tbl_ex \<noteq> ghc_generation ghc_ex
   \<and> kvm_write_guest_cached cfg_ex copy_ok_ex tbl_ex ghc_ex 8 =
       Inr (None, tbl_ex, ghc_ex\<lparr>ghc_generation := 1, ghc_hva := 65536, ghc_memslot := Some 0\<rparr>)
   \<and> snd (kvm_gfn_to_hva_cache_init cfg_ex tbl_ex ghc_ex (ghc_gpa ghc_ex) (ghc_len ghc_ex)) =
       ghc_ex\<lparr>ghc_generation := 1, ghc_hva := 65536, ghc_memslot := Some 0\<rparr>"
proof -
  have h: "generation tbl_ex \<noteq> - 1" "generation tbl_ex \<noteq> ghc_generation ghc_ex"
    by (simp_all add: tbl_ex_def ghc_ex_def)
  have i: "snd (kvm_gfn_to_hva_cache_init cfg_ex tbl_ex ghc_ex (ghc_gpa ghc_ex) (ghc_len ghc_ex)) =
       ghc_ex\<lparr>ghc_generation := 1, ghc_hva := 65536, ghc_memslot := Some 0\<rparr>"
    by (simp add: kvm_gfn_to_hva_cache_init_def ghc_ex_def example_defs translation_defs
        PAGE_SIZE_def PAGE_SHIFT_def KVM_MEMSLOT_INVALID_def KVM_MEM_READONLY_def Let_def)
  have w: "kvm_write_guest_cached cfg_ex copy_ok_ex tbl_ex
             (ghc_ex\<lparr>ghc_generation := 1, ghc_hva := 65536, ghc_memslot := Some 0\<rparr>) 8 =
           Inr (None, tbl_ex, ghc_ex\<lparr>ghc_generation := 1, ghc_hva := 65536, ghc_memslot := Some 0\<rparr>)"
    by (simp add: kvm_write_guest_cached_def ghc_ex_def example_defs translation_defs
        copy_ok_ex_def mark_page_dirty_in_slot_def PAGE_SHIFT_def)
  from generation_bumped_and_cache_revalidated
    [where cfg = cfg_ex and kvm = tbl_ex and slots = tbl_ex and new = None
      and ghc = ghc_ex and cu = copy_ok_ex and len = 8] h i w
  show ?thesis by simp
qed


section \<open>Dirty-page tracking: bits relative to the slot\<close>

lemma and_minus_64: "(w :: 64 word) AND - 64 = push_bit 6 (drop_bit 6 w)"
proof -
  have m: "(- 64 :: 64 word) = NOT (mask 6)" by (simp add: mask_eq_exp_minus_1)
  show ?thesis
    unfolding m
    by (rule bit_word_eqI) (auto simp: bit_simps)
qed

lemma unat_and_minus_64: "unat ((w :: 64 word) AND - 64) = 64 * (unat w div 64)"
proof -
  have d: "unat (w div 64) = unat w div 64" by (simp add: unat_div)
  have "64 * (unat w div 64) \<le> unat w" by simp
  also have "unat w < 2 ^ 64" using unsigned_less [of w] by simp
  finally have "unat (w div 64) * unat (64 :: 64 word) < 2 ^ LENGTH(64)"
    by (simp add: d)
  then have "unat (w div 64 * 64) = unat (w div 64) * unat (64 :: 64 word)"
    using unat_mult_lem [of "w div 64" 64] by blast
  then show ?thesis
    by (simp add: and_minus_64 d push_bit_eq_mult drop_bit_eq_div)
qed

lemma unat_dirty_bitmap_bytes:
  assumes "npages s \<le> KVM_MEM_MAX_NR_PAGES"
  shows "unat (kvm_dirty_bitmap_bytes s) = 8 * ((unat (npages s) + 63) div 64)"
proof -
  from assms have "unat (npages s) \<le> 2147483647"
    by (simp add: KVM_MEM_MAX_NR_PAGES_def word_le_nat_alt)
  then have "unat (npages s + 63) = unat (npages s) + 63"
    using unat_add_lem [of "npages s" 63] by simp
  then show ?thesis
    by (simp add: kvm_dirty_bitmap_bytes_def unat_div unat_and_minus_64)
qed

lemma dirty_bitmap_covers:
  assumes "npages s \<le> KVM_MEM_MAX_NR_PAGES"
  shows "unat (npages s) \<le> 64 * (unat (kvm_dirty_bitmap_bytes s) div 8)"
  using unat_dirty_bitmap_bytes [OF assms] by simp

lemma bit_one_shift: "n < 64 \<Longrightarrow> bit (2 ^ m :: 64 word) n = (n = m)"
  by (auto simp: bit_simps)

lemma set_bit_le_bits:
  assumes "nr < 64 * length bm" "k < 64 * length bm"
  shows "bitmap_bit (set_bit_le nr bm) k = (k = nr \<or> bitmap_bit bm k)"
proof (cases "k div 64 = nr div 64")
  case True
  have "k = nr \<longleftrightarrow> k mod 64 = nr mod 64"
    using True by (metis div_mult_mod_eq)
  moreover have "nr div 64 < length bm" using assms(1) by simp
  ultimately show ?thesis
    using True by (auto simp: bitmap_bit_def set_bit_le_def bit_or_iff bit_one_shift)
next
  case False
  then have "k \<noteq> nr" by auto
  with False show ?thesis
    by (simp add: bitmap_bit_def set_bit_le_def)
qed

lemma length_set_bit_le [simp]: "length (set_bit_le nr bm) = length bm"
  by (simp add: set_bit_le_def)


lemma set_insert_cmp: "set (insert_cmp c x xs) = insert x (set xs)"
  by (induction xs) auto

lemma set_sort_cmp: "set (sort_cmp c xs) = set xs"
  by (induction xs) (auto simp: sort_cmp_def set_insert_cmp)

lemma set_update_memslots:
  "set (memslots (update_memslots cfg slots new g)) \<subseteq>
     (case new of None \<Rightarrow> {} | Some n \<Rightarrow> {n}) \<union> set (memslots slots)"
  using set_update_subset_insert [of "memslots slots"]
  by (auto simp: update_memslots_def sort_memslots_def Let_def set_sort_cmp split: option.splits)

lemma invalid_keeps_log_bit: "((f :: u32) OR KVM_MEMSLOT_INVALID) AND KVM_MEM_LOG_DIRTY_PAGES = f AND KVM_MEM_LOG_DIRTY_PAGES"
  by (simp add: KVM_MEMSLOT_INVALID_def KVM_MEM_LOG_DIRTY_PAGES_def word_ao_dist)

lemma mark_slot_invalid_keeps:
  assumes "no_bitmap_without_logging kvm"
  shows "no_bitmap_without_logging (mark_slot_invalid kvm i)"
proof (cases "id_to_index kvm ! i < length (memslots kvm)")
  case True
  define old where "old = memslots kvm ! (id_to_index kvm ! i)"
  define v where "v = old\<lparr>flags := flags old OR KVM_MEMSLOT_INVALID\<rparr>"
  from True have "old \<in> set (memslots kvm)" by (simp add: old_def)
  with assms have "flags old AND KVM_MEM_LOG_DIRTY_PAGES = 0 \<longrightarrow> dirty_bitmap old = None"
    by (simp add: no_bitmap_without_logging_def list_all_iff)
  then have v: "flags v AND KVM_MEM_LOG_DIRTY_PAGES = 0 \<longrightarrow> dirty_bitmap v = None"
    by (simp add: v_def invalid_keeps_log_bit)
  have "set ((memslots kvm)[id_to_index kvm ! i := v]) \<subseteq> insert v (set (memslots kvm))"
    by (rule set_update_subset_insert)
  with assms v have "\<forall>s\<in>set ((memslots kvm)[id_to_index kvm ! i := v]).
      flags s AND KVM_MEM_LOG_DIRTY_PAGES = 0 \<longrightarrow> dirty_bitmap s = None"
    by (auto simp: no_bitmap_without_logging_def list_all_iff)
  then show ?thesis
    by (simp add: no_bitmap_without_logging_def mark_slot_invalid_def Let_def list_all_iff
        v_def old_def)
next
  case False
  then have "(memslots kvm)[id_to_index kvm ! i := x] = memslots kvm" for x
    by (simp add: list_update_beyond)
  with assms show ?thesis
    by (simp add: no_bitmap_without_logging_def mark_slot_invalid_def Let_def)
qed

lemma update_memslots_keeps:
  assumes "no_bitmap_without_logging slots"
      and "case new of None \<Rightarrow> True | Some n \<Rightarrow> flags n AND KVM_MEM_LOG_DIRTY_PAGES = 0 \<longrightarrow> dirty_bitmap n = None"
  shows "no_bitmap_without_logging (update_memslots cfg slots new g)"
  using assms set_update_memslots [of cfg slots new g]
  by (auto simp: no_bitmap_without_logging_def list_all_iff split: option.splits)

lemma generation_update_keeps [simp]:
  "no_bitmap_without_logging (kvm\<lparr>generation := g\<rparr>) = no_bitmap_without_logging kvm"
  by (simp add: no_bitmap_without_logging_def)

lemma set_region_apply_keeps:
  assumes "no_bitmap_without_logging kvm"
  shows "no_bitmap_without_logging (snd (set_region_apply cfg env kvm mem new change))"
  using assms mark_slot_invalid_keeps [OF assms, of "unat (slot mem)"]
  by (auto simp: set_region_apply_def install_new_memslots_def Let_def
      intro!: update_memslots_keeps split: option.splits prod.splits)

lemma set_region_keeps:
  assumes "no_bitmap_without_logging kvm"
  shows "no_bitmap_without_logging (snd (kvm_set_memory_region' cfg env kvm mem))"
  using assms set_region_apply_keeps [OF assms]
  by (auto simp: kvm_set_memory_region'_def split: option.splits sum.splits)


lemma search_memslots_from_cong:
  "map (\<lambda>s. (base_gfn s, npages s)) ss = map (\<lambda>s. (base_gfn s, npages s)) ss' \<Longrightarrow>
     search_memslots_from ss k g = search_memslots_from ss' k g"
proof (induction ss arbitrary: ss' k)
  case Nil
  then show ?case by simp
next
  case (Cons s ss)
  then obtain s' ts where ss': "ss' = s' # ts" by (cases ss') auto
  with Cons.prems have "base_gfn s = base_gfn s'" "npages s = npages s'"
    "map (\<lambda>s. (base_gfn s, npages s)) ss = map (\<lambda>s. (base_gfn s, npages s)) ts"
    by auto
  with Cons.IH [of ts "Suc k"] ss' show ?case by simp
qed

lemma gfn_to_memslot_bitmap_update:
  "gfn_to_memslot (kvm\<lparr>memslots := (memslots kvm)[i := (memslots kvm ! i)\<lparr>dirty_bitmap := b\<rparr>]\<rparr>) g
     = gfn_to_memslot kvm g"
proof -
  have "map (\<lambda>s. (base_gfn s, npages s))
          ((memslots kvm)[i := (memslots kvm ! i)\<lparr>dirty_bitmap := b\<rparr>]) =
        map (\<lambda>s. (base_gfn s, npages s)) (memslots kvm)"
  proof (rule nth_equalityI)
    show "length (map (\<lambda>s. (base_gfn s, npages s))
                   ((memslots kvm)[i := (memslots kvm ! i)\<lparr>dirty_bitmap := b\<rparr>])) =
          length (map (\<lambda>s. (base_gfn s, npages s)) (memslots kvm))"
      by simp
  next
    fix j
    assume "j < length (map (\<lambda>s. (base_gfn s, npages s))
                   ((memslots kvm)[i := (memslots kvm ! i)\<lparr>dirty_bitmap := b\<rparr>]))"
    then have "j < length (memslots kvm)" by simp
    then show "map (\<lambda>s. (base_gfn s, npages s))
                 ((memslots kvm)[i := (memslots kvm ! i)\<lparr>dirty_bitmap := b\<rparr>]) ! j =
               map (\<lambda>s. (base_gfn s, npages s)) (memslots kvm) ! j"
      by (cases "j = i") simp_all
  qed
  from search_memslots_from_cong [OF this]
  show ?thesis by (simp add: gfn_to_memslot_def search_memslots_def)
qed

lemma mark_page_dirty_found:
  assumes "gfn_to_memslot kvm g = Some i" "dirty_bitmap (memslots kvm ! i) = Some bm"
  shows "mark_page_dirty kvm g =
           kvm\<lparr>memslots := (memslots kvm)[i := (memslots kvm ! i)\<lparr>dirty_bitmap :=
                  Some (set_bit_le (unat (g - base_gfn (memslots kvm ! i))) bm)\<rparr>]\<rparr>"
  using assms by (simp add: mark_page_dirty_def mark_page_dirty_in_slot_def Let_def)

lemma mark_pages_dirty_slot:
  assumes "i < length (memslots kvm)" "dirty_bitmap (memslots kvm ! i) = Some bm"
      and "\<forall>g\<in>set gfns. gfn_to_memslot kvm g = Some i"
  shows "mark_pages_dirty kvm gfns =
           kvm\<lparr>memslots := (memslots kvm)[i := (memslots kvm ! i)\<lparr>dirty_bitmap :=
                  Some (mark_bits (base_gfn (memslots kvm ! i)) gfns bm)\<rparr>]\<rparr>"
  using assms
proof (induction gfns arbitrary: kvm bm)
  case Nil
  then have "(memslots kvm)[i := (memslots kvm ! i)\<lparr>dirty_bitmap := Some bm\<rparr>] = memslots kvm"
    by (metis kvm_memory_slot.surjective kvm_memory_slot.update_convs(3) list_update_id)
  then show ?case by (simp add: mark_pages_dirty_def mark_bits_def)
next
  case (Cons g gfns)
  define s where "s = memslots kvm ! i"
  define bm1 where "bm1 = set_bit_le (unat (g - base_gfn s)) bm"
  define kvm1 where "kvm1 = kvm\<lparr>memslots := (memslots kvm)[i := s\<lparr>dirty_bitmap := Some bm1\<rparr>]\<rparr>"
  from Cons.prems have g: "gfn_to_memslot kvm g = Some i" by simp
  have step: "mark_page_dirty kvm g = kvm1"
    using mark_page_dirty_found [OF g Cons.prems(2)] by (simp add: kvm1_def bm1_def s_def)
  have s1: "memslots kvm1 ! i = s\<lparr>dirty_bitmap := Some bm1\<rparr>"
    using Cons.prems(1) by (simp add: kvm1_def)
  have 1: "i < length (memslots kvm1)" using Cons.prems(1) by (simp add: kvm1_def)
  have 2: "dirty_bitmap (memslots kvm1 ! i) = Some bm1" by (simp add: s1)
  have 3: "\<forall>g\<in>set gfns. gfn_to_memslot kvm1 g = Some i"
    using Cons.prems(3) gfn_to_memslot_bitmap_update [of kvm i "Some bm1"]
    by (simp add: kvm1_def s_def)
  have "mark_pages_dirty kvm (g # gfns) = mark_pages_dirty kvm1 gfns"
    by (simp add: mark_pages_dirty_def step)
  also have "\<dots> = kvm1\<lparr>memslots := (memslots kvm1)[i := (memslots kvm1 ! i)\<lparr>dirty_bitmap :=
                  Some (mark_bits (base_gfn (memslots kvm1 ! i)) gfns bm1)\<rparr>]\<rparr>"
    by (rule Cons.IH [OF 1 2 3])
  also have "\<dots> = kvm\<lparr>memslots := (memslots kvm)[i := s\<lparr>dirty_bitmap :=
                  Some (mark_bits (base_gfn s) (g # gfns) bm)\<rparr>]\<rparr>"
    by (simp only: s1) (simp add: kvm1_def mark_bits_def bm1_def)
  finally show ?case by (simp add: s_def)
qed

lemma mark_bits_bits:
  assumes "\<forall>g\<in>set gfns. unat (g - base) < 64 * length bm"
  shows "length (mark_bits base gfns bm) = length bm \<and>
         (\<forall>k < 64 * length bm. bitmap_bit (mark_bits base gfns bm) k =
            (bitmap_bit bm k \<or> k \<in> (\<lambda>g. unat (g - base)) ` set gfns))"
  using assms
proof (induction gfns arbitrary: bm)
  case Nil
  then show ?case by (simp add: mark_bits_def)
next
  case (Cons g gfns)
  define bm1 where "bm1 = set_bit_le (unat (g - base)) bm"
  have l: "length bm1 = length bm" by (simp add: bm1_def)
  have m: "mark_bits base (g # gfns) bm = mark_bits base gfns bm1"
    by (simp add: mark_bits_def bm1_def)
  from Cons.prems have "\<forall>g\<in>set gfns. unat (g - base) < 64 * length bm1" by (simp add: l)
  from Cons.IH [OF this]
  have ih: "length (mark_bits base gfns bm1) = length bm1"
    "\<And>k. k < 64 * length bm1 \<Longrightarrow> bitmap_bit (mark_bits base gfns bm1) k =
            (bitmap_bit bm1 k \<or> k \<in> (\<lambda>g. unat (g - base)) ` set gfns)"
    by auto
  have b1: "bitmap_bit bm1 k = (k = unat (g - base) \<or> bitmap_bit bm k)" if "k < 64 * length bm" for k
    unfolding bm1_def using Cons.prems that by (intro set_bit_le_bits) auto
  show ?case
    unfolding m using ih b1 l by auto
qed

lemma frame_in_slot:
  fixes g b n :: "64 word"
  assumes "b \<le> g" "g < b + n"
  shows "unat (g - b) < unat n"
proof -
  have bg: "unat b \<le> unat g" using assms(1) by (simp add: word_le_nat_alt)
  have sub: "unat (g - b) = unat g - unat b" using assms(1) by (simp add: unat_sub)
  have lt: "unat g < unat (b + n)" using assms(2) by (simp add: word_less_nat_alt)
  show ?thesis
  proof (cases "unat b + unat n < 2 ^ 64")
    case True
    then have "unat (b + n) = unat b + unat n" using unat_add_lem [of b n] by simp
    with lt bg sub show ?thesis by simp
  next
    case False
    have "unat b < 2 ^ 64" "unat n < 2 ^ 64"
      using unsigned_less [of b] unsigned_less [of n] by simp_all
    with False have "(unat b + unat n) mod 2 ^ 64 = unat b + unat n - 2 ^ 64"
      by (simp add: mod_if)
    then have "unat (b + n) = unat b + unat n - 2 ^ 64"
      by (simp add: unat_word_ariths)
    with \<open>unat n < 2 ^ 64\<close> have "unat (b + n) < unat b" using False by simp
    with lt bg show ?thesis by simp
  qed
qed


lemma first_nonzero_iff: "(first_nonzero ws \<noteq> 0) = (\<exists>w\<in>set ws. w \<noteq> 0)"
  by (induction ws) auto

lemma word_nonzero_bit: "((w :: 64 word) \<noteq> 0) = (\<exists>n<64. bit w n)"
proof
  assume "w \<noteq> 0"
  then obtain n where "bit w n" by (auto simp: bit_eq_iff)
  moreover from this have "n < 64" using bit_imp_le_length [of w n] by simp
  ultimately show "\<exists>n<64. bit w n" by blast
next
  assume "\<exists>n<64. bit w n"
  then show "w \<noteq> 0" by auto
qed

lemma bitmap_any_bit: "(\<exists>w\<in>set ws. w \<noteq> 0) = (\<exists>k < 64 * length ws. bitmap_bit ws k)"
proof
  assume "\<exists>w\<in>set ws. w \<noteq> 0"
  then obtain j n where j: "j < length ws" and n: "n < 64" "bit (ws ! j) n"
    by (auto simp: in_set_conv_nth word_nonzero_bit)
  have "64 * j + n < 64 * length ws" using j n(1) by simp
  moreover have "bitmap_bit ws (64 * j + n)" using n by (simp add: bitmap_bit_def)
  ultimately show "\<exists>k < 64 * length ws. bitmap_bit ws k" by blast
next
  assume "\<exists>k < 64 * length ws. bitmap_bit ws k"
  then obtain k where k: "k < 64 * length ws" "bitmap_bit ws k" by blast
  then have "k div 64 < length ws" by simp
  moreover from k(2) have "ws ! (k div 64) \<noteq> 0" by (auto simp: bitmap_bit_def)
  ultimately show "\<exists>w\<in>set ws. w \<noteq> 0" using nth_mem by blast
qed

lemma bitmap_bit_take: "k < 64 * m \<Longrightarrow> bitmap_bit (take m bm) k = bitmap_bit bm k"
  by (simp add: bitmap_bit_def)

lemma get_dirty_log_copy:
  assumes "unat log_slot < KVM_USER_MEM_SLOTS cfg"
      and "dirty_bitmap (id_to_memslot kvm (unat log_slot)) = Some bm"
  shows "kvm_get_dirty_log cfg True kvm log_slot is_dirty =
           Inr (take (unat (kvm_dirty_bitmap_bytes (id_to_memslot kvm (unat log_slot))) div 8) bm,
                if \<exists>k < 64 * length (take (unat (kvm_dirty_bitmap_bytes
                                (id_to_memslot kvm (unat log_slot))) div 8) bm).
                     bitmap_bit (take (unat (kvm_dirty_bitmap_bytes
                                (id_to_memslot kvm (unat log_slot))) div 8) bm) k
                then 1 else is_dirty)"
  using assms first_nonzero_iff [of "take (unat (kvm_dirty_bitmap_bytes
                                (id_to_memslot kvm (unat log_slot))) div 8) bm"]
    bitmap_any_bit [of "take (unat (kvm_dirty_bitmap_bytes
                                (id_to_memslot kvm (unat log_slot))) div 8) bm"]
  by (simp add: kvm_get_dirty_log_def Let_def unat_div)

lemma rel_index_inj: "inj (\<lambda>g :: 64 word. unat (g - b))"
proof (rule injI)
  fix x y :: "64 word"
  assume "unat (x - b) = unat (y - b)"
  then have "x - b = y - b" by (simp add: word_unat_eq_iff)
  then show "x = y" by simp
qed


lemma zero_bitmap_bits:
  assumes "\<forall>w\<in>set bm. w = 0" "k < 64 * length bm"
  shows "\<not> bitmap_bit bm k"
proof -
  from assms(2) have "k div 64 < length bm" by simp
  with assms(1) have "bm ! (k div 64) = 0" by simp
  then show ?thesis by (simp add: bitmap_bit_def)
qed

lemma marked_pages_logged:
  assumes idx: "i < length (memslots kvm)" "id_to_index kvm ! unat log_slot = i"
      and user: "unat log_slot < KVM_USER_MEM_SLOTS cfg"
      and bm: "dirty_bitmap (memslots kvm ! i) = Some bm"
      and size: "npages (memslots kvm ! i) \<le> KVM_MEM_MAX_NR_PAGES"
                "unat (kvm_dirty_bitmap_bytes (memslots kvm ! i)) div 8 \<le> length bm"
      and frames: "\<forall>g\<in>set gfns. gfn_to_memslot kvm g = Some i"
  shows "\<exists>bm' copy.
      mark_pages_dirty kvm gfns =
        kvm\<lparr>memslots := (memslots kvm)[i := (memslots kvm ! i)\<lparr>dirty_bitmap := Some bm'\<rparr>]\<rparr>
    \<and> length bm' = length bm
    \<and> (\<forall>k < 64 * length bm. bitmap_bit bm' k =
          (bitmap_bit bm k \<or> k \<in> (\<lambda>g. unat (g - base_gfn (memslots kvm ! i))) ` set gfns))
    \<and> (\<forall>g\<in>set gfns. unat (g - base_gfn (memslots kvm ! i)) < unat (npages (memslots kvm ! i)))
    \<and> kvm_get_dirty_log cfg True (mark_pages_dirty kvm gfns) log_slot is_dirty =
          Inr (copy, if \<exists>k < 64 * length copy. bitmap_bit copy k then 1 else is_dirty)
    \<and> (\<forall>k < unat (npages (memslots kvm ! i)). bitmap_bit copy k = bitmap_bit bm' k)
    \<and> ((\<forall>w\<in>set bm. w = 0) \<and> distinct gfns \<longrightarrow>
          card {k. k < unat (npages (memslots kvm ! i)) \<and> bitmap_bit copy k} = length gfns)"
proof -
  define s where "s = memslots kvm ! i"
  define rel where "rel = (\<lambda>g. unat (g - base_gfn s))"
  define m where "m = unat (kvm_dirty_bitmap_bytes s) div 8"
  define bm' where "bm' = mark_bits (base_gfn s) gfns bm"
  define kvm' where "kvm' = kvm\<lparr>memslots := (memslots kvm)[i := s\<lparr>dirty_bitmap := Some bm'\<rparr>]\<rparr>"
  define copy where "copy = take m bm'"
  have in_slot: "rel g < unat (npages s)" if "g \<in> set gfns" for g
  proof -
    from frames that have "gfn_to_memslot kvm g = Some i" by simp
    from gfn_to_memslot_Some [OF this] show ?thesis
      unfolding rel_def s_def by (intro frame_in_slot) auto
  qed
  have cover: "unat (npages s) \<le> 64 * m"
    using dirty_bitmap_covers [of s] size(1) by (simp add: m_def s_def)
  have m_le: "m \<le> length bm" using size(2) by (simp add: m_def s_def)
  have in_bm: "\<forall>g\<in>set gfns. unat (g - base_gfn s) < 64 * length bm"
    using in_slot cover m_le by (fastforce simp: rel_def)
  from mark_bits_bits [OF in_bm]
  have len: "length bm' = length bm"
    and bits: "\<And>k. k < 64 * length bm \<Longrightarrow> bitmap_bit bm' k = (bitmap_bit bm k \<or> k \<in> rel ` set gfns)"
    by (auto simp: bm'_def rel_def)
  have state: "mark_pages_dirty kvm gfns = kvm'"
    using mark_pages_dirty_slot [OF idx(1) bm frames] by (simp add: kvm'_def bm'_def s_def)
  have slot': "id_to_memslot kvm' (unat log_slot) = s\<lparr>dirty_bitmap := Some bm'\<rparr>"
    using idx by (simp add: id_to_memslot_def kvm'_def)
  have bytes': "kvm_dirty_bitmap_bytes (s\<lparr>dirty_bitmap := Some bm'\<rparr>) = kvm_dirty_bitmap_bytes s"
    by (simp add: kvm_dirty_bitmap_bytes_def)
  have log: "kvm_get_dirty_log cfg True kvm' log_slot is_dirty =
          Inr (copy, if \<exists>k < 64 * length copy. bitmap_bit copy k then 1 else is_dirty)"
    using get_dirty_log_copy [of log_slot cfg kvm' bm' is_dirty] user
    by (simp add: slot' bytes' copy_def m_def)
  have copy_bits: "bitmap_bit copy k = bitmap_bit bm' k" if "k < unat (npages s)" for k
    using that cover by (simp add: copy_def bitmap_bit_take)
  have count: "card {k. k < unat (npages s) \<and> bitmap_bit copy k} = length gfns"
    if z: "\<forall>w\<in>set bm. w = 0" and d: "distinct gfns"
  proof -
    have "{k. k < unat (npages s) \<and> bitmap_bit copy k} = rel ` set gfns"
    proof (intro set_eqI iffI)
      fix k assume "k \<in> {k. k < unat (npages s) \<and> bitmap_bit copy k}"
      then have k: "k < unat (npages s)" "bitmap_bit bm' k" using copy_bits by auto
      then have "k < 64 * length bm" using cover m_le by simp
      with bits [OF this] zero_bitmap_bits [OF z this] k(2) show "k \<in> rel ` set gfns" by simp
    next
      fix k assume k: "k \<in> rel ` set gfns"
      then have lt: "k < unat (npages s)" using in_slot by auto
      then have "k < 64 * length bm" using cover m_le by simp
      with bits [OF this] k have "bitmap_bit bm' k" by simp
      with lt copy_bits show "k \<in> {k. k < unat (npages s) \<and> bitmap_bit copy k}" by simp
    qed
    moreover have "card (rel ` set gfns) = card (set gfns)"
      unfolding rel_def
      by (rule card_image) (rule inj_on_subset [OF rel_index_inj], simp)
    ultimately show ?thesis using d by (simp add: distinct_card)
  qed
  have in_slot': "\<forall>g\<in>set gfns. unat (g - base_gfn s) < unat (npages s)"
    using in_slot by (simp add: rel_def)
  have bits': "\<forall>k < 64 * length bm. bitmap_bit bm' k =
          (bitmap_bit bm k \<or> k \<in> (\<lambda>g. unat (g - base_gfn s)) ` set gfns)"
    using bits by (simp add: rel_def)
  have copy_bits': "\<forall>k < unat (npages s). bitmap_bit copy k = bitmap_bit bm' k"
    using copy_bits by simp
  have count': "(\<forall>w\<in>set bm. w = 0) \<and> distinct gfns \<longrightarrow>
          card {k. k < unat (npages s) \<and> bitmap_bit copy k} = length gfns"
    using count by simp
  from state len bits' in_slot' log [folded state] copy_bits' count'
  have "mark_pages_dirty kvm gfns =
        kvm\<lparr>memslots := (memslots kvm)[i := s\<lparr>dirty_bitmap := Some bm'\<rparr>]\<rparr>
    \<and> length bm' = length bm
    \<and> (\<forall>k < 64 * length bm. bitmap_bit bm' k =
          (bitmap_bit bm k \<or> k \<in> (\<lambda>g. unat (g - base_gfn s)) ` set gfns))
    \<and> (\<forall>g\<in>set gfns. unat (g - base_gfn s) < unat (npages s))
    \<and> kvm_get_dirty_log cfg True (mark_pages_dirty kvm gfns) log_slot is_dirty =
          Inr (copy, if \<exists>k < 64 * length copy. bitmap_bit copy k then 1 else is_dirty)
    \<and> (\<forall>k < unat (npages s). bitmap_bit copy k = bitmap_bit bm' k)
    \<and> ((\<forall>w\<in>set bm. w = 0) \<and> distinct gfns \<longrightarrow>
          card {k. k < unat (npages s) \<and> bitmap_bit copy k} = length gfns)"
    unfolding kvm'_def by blast
  then show ?thesis unfolding s_def by blast
qed

lemma fresh_bitmap_zero_and_large:
  assumes "npages s \<le> KVM_MEM_MAX_NR_PAGES"
  shows "unat (kvm_dirty_bitmap_bytes s) div 8 \<le> length (kvm_create_dirty_bitmap s) \<and>
         (\<forall>w\<in>set (kvm_create_dirty_bitmap s). w = 0)"
proof -
  from assms have np: "unat (npages s) \<le> 2147483647"
    by (simp add: KVM_MEM_MAX_NR_PAGES_def word_le_nat_alt)
  have b: "unat (kvm_dirty_bitmap_bytes s) = 8 * ((unat (npages s) + 63) div 64)"
    by (rule unat_dirty_bitmap_bytes [OF assms])
  with np have "unat (2 :: 64 word) * unat (kvm_dirty_bitmap_bytes s) < 2 ^ LENGTH(64)"
    by simp
  then have "unat (2 * kvm_dirty_bitmap_bytes s) = unat (2 :: 64 word) * unat (kvm_dirty_bitmap_bytes s)"
    using unat_mult_lem [of 2 "kvm_dirty_bitmap_bytes s"] by blast
  then show ?thesis
    by (simp add: kvm_create_dirty_bitmap_def b)
qed

lemma no_bitmap_mark_nothing:
  "dirty_bitmap (memslots kvm ! j) = None \<Longrightarrow> mark_page_dirty_in_slot kvm (Some j) g = kvm"
  by (simp add: mark_page_dirty_in_slot_def)

text \<open>
  C6. On a slot with dirty logging (a bitmap with a bit for each of its pages), marking a
  frame that resolves to the slot sets the bit at the index \<open>gfn - base_gfn\<close> and no other:
  after marking a list of frames, only that slot's bitmap has changed, and a bit is set in
  it exactly when it was set before or is the relative index of one of the frames, each
  of which is below the slot's page count. \<^verbatim>\<open>kvm_get_dirty_log\<close> then copies the leading
  longs of the live bitmap, which hold every page's bit, and sets the caller's dirty cell
  to 1 exactly when some copied bit is set (it leaves the cell alone otherwise); it returns
  no new table, so the live bitmap is not cleared. Starting from a zeroed bitmap, N
  distinct frames give exactly N set page bits. Marking through a slot without a bitmap,
  or a frame in no slot, changes nothing; the set-region operation keeps every slot
  without the log-dirty flag free of a bitmap; and the bitmap it allocates is zeroed and
  large enough.
\<close>

theorem dirty_bits_relative_to_slot_base:
  "(i < length (memslots kvm) \<and> id_to_index kvm ! unat log_slot = i \<and>
    unat log_slot < KVM_USER_MEM_SLOTS cfg \<and>
    dirty_bitmap (memslots kvm ! i) = Some bm \<and>
    npages (memslots kvm ! i) \<le> KVM_MEM_MAX_NR_PAGES \<and>
    unat (kvm_dirty_bitmap_bytes (memslots kvm ! i)) div 8 \<le> length bm \<and>
    (\<forall>g\<in>set gfns. gfn_to_memslot kvm g = Some i) \<longrightarrow>
    (\<exists>bm' copy.
        mark_pages_dirty kvm gfns =
          kvm\<lparr>memslots := (memslots kvm)[i := (memslots kvm ! i)\<lparr>dirty_bitmap := Some bm'\<rparr>]\<rparr>
      \<and> length bm' = length bm
      \<and> (\<forall>k < 64 * length bm. bitmap_bit bm' k =
            (bitmap_bit bm k \<or> k \<in> (\<lambda>g. unat (g - base_gfn (memslots kvm ! i))) ` set gfns))
      \<and> (\<forall>g\<in>set gfns. unat (g - base_gfn (memslots kvm ! i)) < unat (npages (memslots kvm ! i)))
      \<and> kvm_get_dirty_log cfg True (mark_pages_dirty kvm gfns) log_slot is_dirty =
            Inr (copy, if \<exists>k < 64 * length copy. bitmap_bit copy k then 1 else is_dirty)
      \<and> (\<forall>k < unat (npages (memslots kvm ! i)). bitmap_bit copy k = bitmap_bit bm' k)
      \<and> ((\<forall>w\<in>set bm. w = 0) \<and> distinct gfns \<longrightarrow>
            card {k. k < unat (npages (memslots kvm ! i)) \<and> bitmap_bit copy k} = length gfns)))
   \<and> (dirty_bitmap (memslots kvm_a ! j) = None \<longrightarrow>
        mark_page_dirty_in_slot kvm_a (Some j) g_a = kvm_a \<and>
        (gfn_to_memslot kvm_a g_a = Some j \<longrightarrow> mark_page_dirty kvm_a g_a = kvm_a))
   \<and> (gfn_to_memslot kvm_a g_b = None \<longrightarrow> mark_page_dirty kvm_a g_b = kvm_a)
   \<and> (no_bitmap_without_logging kvm_b \<longrightarrow>
        no_bitmap_without_logging (snd (kvm_set_memory_region' cfg env kvm_b mem)))
   \<and> (npages s \<le> KVM_MEM_MAX_NR_PAGES \<longrightarrow>
        unat (kvm_dirty_bitmap_bytes s) div 8 \<le> length (kvm_create_dirty_bitmap s) \<and>
        (\<forall>w\<in>set (kvm_create_dirty_bitmap s). w = 0))"
proof (intro conjI impI)
  assume a: "i < length (memslots kvm) \<and> id_to_index kvm ! unat log_slot = i \<and>
    unat log_slot < KVM_USER_MEM_SLOTS cfg \<and>
    dirty_bitmap (memslots kvm ! i) = Some bm \<and>
    npages (memslots kvm ! i) \<le> KVM_MEM_MAX_NR_PAGES \<and>
    unat (kvm_dirty_bitmap_bytes (memslots kvm ! i)) div 8 \<le> length bm \<and>
    (\<forall>g\<in>set gfns. gfn_to_memslot kvm g = Some i)"
  then show "\<exists>bm' copy.
        mark_pages_dirty kvm gfns =
          kvm\<lparr>memslots := (memslots kvm)[i := (memslots kvm ! i)\<lparr>dirty_bitmap := Some bm'\<rparr>]\<rparr>
      \<and> length bm' = length bm
      \<and> (\<forall>k < 64 * length bm. bitmap_bit bm' k =
            (bitmap_bit bm k \<or> k \<in> (\<lambda>g. unat (g - base_gfn (memslots kvm ! i))) ` set gfns))
      \<and> (\<forall>g\<in>set gfns. unat (g - base_gfn (memslots kvm ! i)) < unat (npages (memslots kvm ! i)))
      \<and> kvm_get_dirty_log cfg True (mark_pages_dirty kvm gfns) log_slot is_dirty =
            Inr (copy, if \<exists>k < 64 * length copy. bitmap_bit copy k then 1 else is_dirty)
      \<and> (\<forall>k < unat (npages (memslots kvm ! i)). bitmap_bit copy k = bitmap_bit bm' k)
      \<and> ((\<forall>w\<in>set bm. w = 0) \<and> distinct gfns \<longrightarrow>
            card {k. k < unat (npages (memslots kvm ! i)) \<and> bitmap_bit copy k} = length gfns)"
    by (intro marked_pages_logged) simp_all
next
  assume "dirty_bitmap (memslots kvm_a ! j) = None"
  then show "mark_page_dirty_in_slot kvm_a (Some j) g_a = kvm_a" by (rule no_bitmap_mark_nothing)
next
  assume "dirty_bitmap (memslots kvm_a ! j) = None" "gfn_to_memslot kvm_a g_a = Some j"
  then show "mark_page_dirty kvm_a g_a = kvm_a"
    by (simp add: mark_page_dirty_def no_bitmap_mark_nothing)
next
  assume "gfn_to_memslot kvm_a g_b = None"
  then show "mark_page_dirty kvm_a g_b = kvm_a"
    by (simp add: mark_page_dirty_def mark_page_dirty_in_slot_def)
next
  assume "no_bitmap_without_logging kvm_b"
  then show "no_bitmap_without_logging (snd (kvm_set_memory_region' cfg env kvm_b mem))"
    by (rule set_region_keeps)
next
  assume "npages s \<le> KVM_MEM_MAX_NR_PAGES"
  from fresh_bitmap_zero_and_large [OF this]
  show "unat (kvm_dirty_bitmap_bytes s) div 8 \<le> length (kvm_create_dirty_bitmap s)"
    and "\<forall>w\<in>set (kvm_create_dirty_bitmap s). w = 0"
    by simp_all
qed

lemmas dirty_defs = mark_pages_dirty_def mark_page_dirty_def mark_page_dirty_in_slot_def
  set_bit_le_def kvm_get_dirty_log_def bitmap_bit_def slot_log_def tbl_log_def

theorem dirty_bits_relative_to_slot_base_witness:
  "0 < length (memslots tbl_log) \<and> id_to_index tbl_log ! unat (1 :: u32) = 0
   \<and> unat (1 :: u32) < KVM_USER_MEM_SLOTS cfg_ex
   \<and> dirty_bitmap (memslots tbl_log ! 0) = Some [0, 0]
   \<and> npages (memslots tbl_log ! 0) \<le> KVM_MEM_MAX_NR_PAGES
   \<and> unat (kvm_dirty_bitmap_bytes (memslots tbl_log ! 0)) div 8 \<le> length [0 :: ulong, 0]
   \<and> list_all (\<lambda>g. gfn_to_memslot tbl_log g = Some 0) [2, 1]
   \<and> mark_pages_dirty tbl_log [2, 1] =
       tbl_log\<lparr>memslots := [slot_log\<lparr>dirty_bitmap := Some [3, 0]\<rparr>, empty_slot 0, empty_slot 2]\<rparr>
   \<and> kvm_get_dirty_log cfg_ex True (mark_pages_dirty tbl_log [2, 1]) 1 0 = Inr ([3], 1)
   \<and> card {k. k < unat (npages (memslots tbl_log ! 0)) \<and> bitmap_bit [3] k} = 2
   \<and> dirty_bitmap (memslots tbl_ex ! 0) = None
   \<and> gfn_to_memslot tbl_ex 2 = Some 0
   \<and> mark_page_dirty tbl_ex 2 = tbl_ex
   \<and> gfn_to_memslot tbl_ex 9 = None
   \<and> mark_page_dirty tbl_ex 9 = tbl_ex
   \<and> no_bitmap_without_logging tbl_ex
   \<and> no_bitmap_without_logging (snd (kvm_set_memory_region' cfg_ex env_ok tbl_ex delete_req))
   \<and> npages slot_ex \<le> KVM_MEM_MAX_NR_PAGES
   \<and> kvm_create_dirty_bitmap slot_ex = [0, 0]"
proof -
  have h1: "0 < length (memslots tbl_log)" "id_to_index tbl_log ! unat (1 :: u32) = 0"
    "unat (1 :: u32) < KVM_USER_MEM_SLOTS cfg_ex"
    "dirty_bitmap (memslots tbl_log ! 0) = Some [0, 0]"
    "npages (memslots tbl_log ! 0) \<le> KVM_MEM_MAX_NR_PAGES"
    "unat (kvm_dirty_bitmap_bytes (memslots tbl_log ! 0)) div 8 \<le> length [0 :: ulong, 0]"
    by (simp_all add: dirty_defs example_defs kvm_dirty_bitmap_bytes_def
        KVM_MEM_MAX_NR_PAGES_def word_le_nat_alt)
  have h2: "list_all (\<lambda>g. gfn_to_memslot tbl_log g = Some 0) [2, 1]"
    by (simp add: dirty_defs example_defs translation_defs word_le_nat_alt word_less_nat_alt)
  have h3: "dirty_bitmap (memslots tbl_ex ! 0) = None" "gfn_to_memslot tbl_ex 2 = Some 0"
    "gfn_to_memslot tbl_ex 9 = None" "no_bitmap_without_logging tbl_ex"
    "npages slot_ex \<le> KVM_MEM_MAX_NR_PAGES"
    by (simp_all add: example_defs translation_defs no_bitmap_without_logging_def
        KVM_MEM_MAX_NR_PAGES_def word_le_nat_alt word_less_nat_alt)
  have m: "mark_pages_dirty tbl_log [2, 1] =
     tbl_log\<lparr>memslots := [slot_log\<lparr>dirty_bitmap := Some [3, 0]\<rparr>, empty_slot 0, empty_slot 2]\<rparr>"
    by (simp add: dirty_defs example_defs translation_defs word_le_nat_alt word_less_nat_alt
        KVM_MEM_LOG_DIRTY_PAGES_def)
  have l: "kvm_get_dirty_log cfg_ex True (mark_pages_dirty tbl_log [2, 1]) 1 0 = Inr ([3], 1)"
    unfolding m
    by (simp add: dirty_defs example_defs id_to_memslot_def kvm_dirty_bitmap_bytes_def
        KVM_MEM_LOG_DIRTY_PAGES_def)
  have "unat (2 * kvm_dirty_bitmap_bytes slot_ex) div 8 = Suc (Suc 0)"
    by (simp add: kvm_dirty_bitmap_bytes_def slot_ex_def)
  then have c: "kvm_create_dirty_bitmap slot_ex = [0, 0]"
    by (simp add: kvm_create_dirty_bitmap_def)
  note t = dirty_bits_relative_to_slot_base
    [where kvm = tbl_log and i = 0 and log_slot = 1 and cfg = cfg_ex and bm = "[0, 0]"
       and gfns = "[2, 1]" and is_dirty = 0 and kvm_a = tbl_ex and j = 0 and g_a = 2 and g_b = 9
       and kvm_b = tbl_ex and env = env_ok and mem = delete_req and s = slot_ex]
  from t h1 h2 obtain bm' copy where
    log: "kvm_get_dirty_log cfg_ex True (mark_pages_dirty tbl_log [2, 1]) 1 0 =
            Inr (copy, if \<exists>k < 64 * length copy. bitmap_bit copy k then 1 else 0)"
    and cnt: "card {k. k < unat (npages (memslots tbl_log ! 0)) \<and> bitmap_bit copy k} =
            length [2 :: gfn_t, 1]"
    by (auto simp: list_all_iff)
  from log l have "copy = [3]" by simp
  with cnt have card: "card {k. k < unat (npages (memslots tbl_log ! 0)) \<and> bitmap_bit [3] k} = 2"
    by simp
  from t h3 have rest: "mark_page_dirty tbl_ex 2 = tbl_ex" "mark_page_dirty tbl_ex 9 = tbl_ex"
    "no_bitmap_without_logging (snd (kvm_set_memory_region' cfg_ex env_ok tbl_ex delete_req))"
    by blast+
  from h1 h2 h3 m l c card rest show ?thesis by simp
qed


section \<open>Dispatch on the I/O bus\<close>

lemma cmp_antimono_step:
  "io_addr a \<le> io_addr b \<and> io_range_end a \<le> io_range_end b \<Longrightarrow>
     kvm_io_bus_sort_cmp key b \<le> kvm_io_bus_sort_cmp key a"
  by (auto simp: kvm_io_bus_sort_cmp_def io_range_end_def)

lemma ascending_cmp_sorted:
  assumes "bus_ascending bus"
  shows "sorted_wrt (\<lambda>a b. kvm_io_bus_sort_cmp key b \<le> kvm_io_bus_sort_cmp key a) (io_range bus)"
  using assms unfolding bus_ascending_def
  by (auto intro: sorted_wrt_mono_rel [rotated] cmp_antimono_step)

lemma sorted_cmp_nth:
  assumes "sorted_wrt (\<lambda>a b. f b \<le> f a) xs" "i \<le> j" "j < length xs"
  shows "f (xs ! j) \<le> (f (xs ! i) :: int)"
proof (cases "i = j")
  case True
  then show ?thesis by simp
next
  case False
  with assms(2) have "i < j" by simp
  from sorted_wrt_nth_less [OF assms(1) this assms(3)] show ?thesis .
qed

lemma bsearch_from_sound:
  "bsearch_from key base cmp lo hi = Some m \<Longrightarrow> lo \<le> m \<and> m < hi \<and> cmp key (base ! m) = 0"
proof (induction key base cmp lo hi rule: bsearch_from.induct)
  case (1 key base cmp lo hi)
  note unfold = bsearch_from.simps [of key base cmp lo hi]
  show ?case
  proof (cases "lo < hi")
    case False
    with "1.prems" show ?thesis by (simp add: unfold)
  next
    case True
    define mid where "mid = lo + (hi - lo) div 2"
    have mid: "lo \<le> mid" "mid < hi" using True by (simp_all add: mid_def)
    consider (lt) "cmp key (base ! mid) < 0" | (gt) "cmp key (base ! mid) > 0"
      | (eq) "cmp key (base ! mid) = 0" by linarith
    then show ?thesis
    proof cases
      case lt
      with True "1.prems" have "bsearch_from key base cmp lo mid = Some m"
        by (simp add: unfold mid_def Let_def)
      from "1.IH"(1) [OF True mid_def refl _ this] lt mid show ?thesis by simp
    next
      case gt
      with True "1.prems" have "bsearch_from key base cmp (mid + 1) hi = Some m"
        by (simp add: unfold mid_def Let_def)
      from "1.IH"(2) [OF True mid_def refl _ _ this] gt mid show ?thesis by simp
    next
      case eq
      with True "1.prems" have "m = mid" by (simp add: unfold mid_def Let_def)
      with eq mid show ?thesis by simp
    qed
  qed
qed

lemma bsearch_from_complete:
  assumes "sorted_wrt (\<lambda>a b. cmp key b \<le> cmp key a) base"
      and "hi \<le> length base"
      and "\<forall>i<lo. cmp key (base ! i) > 0"
      and "\<forall>i. hi \<le> i \<and> i < length base \<longrightarrow> cmp key (base ! i) < 0"
      and "bsearch_from key base cmp lo hi = None"
  shows "\<forall>i<length base. cmp key (base ! i) \<noteq> 0"
  using assms
proof (induction key base cmp lo hi rule: bsearch_from.induct)
  case (1 key base cmp lo hi)
  note unfold = bsearch_from.simps [of key base cmp lo hi]
  note srt = "1.prems"(1)
  show ?case
  proof (cases "lo < hi")
    case False
    show ?thesis
    proof (intro allI impI)
      fix i assume i: "i < length base"
      show "cmp key (base ! i) \<noteq> 0"
      proof (cases "i < lo")
        case True
        with "1.prems"(3) show ?thesis by fastforce
      next
        case False
        with \<open>\<not> lo < hi\<close> have "hi \<le> i" by simp
        with i "1.prems"(4) show ?thesis by fastforce
      qed
    qed
  next
    case True
    define mid where "mid = lo + (hi - lo) div 2"
    have mid: "lo \<le> mid" "mid < hi" using True by (simp_all add: mid_def)
    then have midl: "mid < length base" using "1.prems"(2) by simp
    consider (lt) "cmp key (base ! mid) < 0" | (gt) "cmp key (base ! mid) > 0"
      | (eq) "cmp key (base ! mid) = 0" by linarith
    then show ?thesis
    proof cases
      case lt
      with True "1.prems"(5) have r: "bsearch_from key base cmp lo mid = None"
        by (simp add: unfold mid_def Let_def)
      have a: "mid \<le> length base" using midl by simp
      have b: "\<forall>i. mid \<le> i \<and> i < length base \<longrightarrow> cmp key (base ! i) < 0"
      proof (intro allI impI)
        fix i assume "mid \<le> i \<and> i < length base"
        then have "cmp key (base ! i) \<le> cmp key (base ! mid)"
          using sorted_cmp_nth [OF srt, of mid i] by simp
        with lt show "cmp key (base ! i) < 0" by simp
      qed
      from "1.IH"(1) [OF True mid_def refl _ srt a "1.prems"(3) b r] lt show ?thesis by simp
    next
      case gt
      with True "1.prems"(5) have r: "bsearch_from key base cmp (mid + 1) hi = None"
        by (simp add: unfold mid_def Let_def)
      have b: "\<forall>i<mid + 1. cmp key (base ! i) > 0"
      proof (intro allI impI)
        fix i assume "i < mid + 1"
        then have "cmp key (base ! mid) \<le> cmp key (base ! i)"
          using sorted_cmp_nth [OF srt, of i mid] midl by simp
        with gt show "cmp key (base ! i) > 0" by simp
      qed
      from "1.IH"(2) [OF True mid_def refl _ _ srt "1.prems"(2) b "1.prems"(4) r] gt
      show ?thesis by simp
    next
      case eq
      with True "1.prems"(5) show ?thesis by (simp add: unfold mid_def Let_def)
    qed
  qed
qed


lemma first_dev_back_props:
  assumes "kvm_io_bus_sort_cmp key (rs ! m) = 0"
  shows "first_dev_back key rs m \<le> m \<and>
         (\<forall>i. first_dev_back key rs m \<le> i \<and> i \<le> m \<longrightarrow> kvm_io_bus_sort_cmp key (rs ! i) = 0) \<and>
         (first_dev_back key rs m = 0 \<or>
          kvm_io_bus_sort_cmp key (rs ! (first_dev_back key rs m - 1)) \<noteq> 0)"
  using assms
proof (induction m)
  case 0
  then show ?case by simp
next
  case (Suc m)
  show ?case
  proof (cases "kvm_io_bus_sort_cmp key (rs ! m) = 0")
    case True
    from Suc.IH [OF True] Suc.prems True show ?thesis
      by (auto simp: le_Suc_eq)
  next
    case False
    with Suc.prems show ?thesis by (auto simp: le_Suc_eq)
  qed
qed

lemma offer_as_takeWhile:
  assumes "dev_count bus = length (io_range bus)"
  shows "kvm_io_bus_offer h bus addr len idx =
         offer_in_order h addr len
           (takeWhile (\<lambda>r. kvm_io_bus_sort_cmp (io_access addr len) r = 0)
              (drop idx (io_range bus)))"
  using assms
proof (induction h bus addr len idx rule: kvm_io_bus_offer.induct)
  case (1 h bus addr len idx)
  note unfold = kvm_io_bus_offer.simps [of h bus addr len idx]
  show ?case
  proof (cases "idx < dev_count bus")
    case False
    with "1.prems" show ?thesis by (simp add: unfold)
  next
    case True
    with "1.prems" have d: "drop idx (io_range bus) = io_range bus ! idx # drop (Suc idx) (io_range bus)"
      by (simp add: Cons_nth_drop_Suc)
    show ?thesis
    proof (cases "kvm_io_bus_sort_cmp (io_access addr len) (io_range bus ! idx) = 0")
      case False
      then show ?thesis by (simp add: unfold d io_access_def)
    next
      case eq: True
      show ?thesis
      proof (cases "h (io_dev (io_range bus ! idx)) addr len = None")
        case True
        with eq \<open>idx < dev_count bus\<close> show ?thesis by (simp add: unfold d io_access_def)
      next
        case False
        have c: "idx < dev_count bus \<and>
                 kvm_io_bus_sort_cmp \<lparr>io_addr = addr, io_len = len, io_dev = 0\<rparr>
                   (io_range bus ! idx) = 0"
          using eq \<open>idx < dev_count bus\<close> by (simp add: io_access_def)
        from "1.IH" [OF c False "1.prems"] eq False \<open>idx < dev_count bus\<close>
        show ?thesis by (auto simp: unfold d io_access_def)
      qed
    qed
  qed
qed

lemma filter_zero_takeWhile:
  fixes f :: "'a \<Rightarrow> int"
  assumes "sorted_wrt (\<lambda>a b. f b \<le> f a) xs" "\<forall>x\<in>set xs. f x \<le> 0"
  shows "filter (\<lambda>x. f x = 0) xs = takeWhile (\<lambda>x. f x = 0) xs"
  using assms
proof (induction xs)
  case Nil
  then show ?case by simp
next
  case (Cons x xs)
  show ?case
  proof (cases "f x = 0")
    case True
    with Cons show ?thesis by simp
  next
    case False
    with Cons.prems have "\<forall>y\<in>set xs. f y < 0" by fastforce
    then have "filter (\<lambda>x. f x = 0) xs = []" by (auto simp: filter_empty_conv)
    with False show ?thesis by simp
  qed
qed

lemma filter_from_first_zero:
  fixes f :: "'a \<Rightarrow> int"
  assumes srt: "sorted_wrt (\<lambda>a b. f b \<le> f a) xs"
      and off: "off < length xs" "f (xs ! off) = 0" "off = 0 \<or> f (xs ! (off - 1)) \<noteq> 0"
  shows "filter (\<lambda>x. f x = 0) xs = takeWhile (\<lambda>x. f x = 0) (drop off xs)"
proof -
  have before: "filter (\<lambda>x. f x = 0) (take off xs) = []"
  proof (cases "off = 0")
    case True
    then show ?thesis by simp
  next
    case False
    with off(3) have nz: "f (xs ! (off - 1)) \<noteq> 0" by simp
    have "f (xs ! off) \<le> f (xs ! (off - 1))"
      using sorted_cmp_nth [OF srt, of "off - 1" off] off(1) by simp
    with nz off(2) have pos: "0 < f (xs ! (off - 1))" by simp
    have "f (xs ! i) \<noteq> 0" if "i < off" for i
    proof -
      have "f (xs ! (off - 1)) \<le> f (xs ! i)"
        using sorted_cmp_nth [OF srt, of i "off - 1"] that off(1) by simp
      with pos show ?thesis by simp
    qed
    then have "\<forall>x\<in>set (take off xs). f x \<noteq> 0"
      using off(1) by (auto simp: in_set_conv_nth)
    then show ?thesis by (auto simp: filter_empty_conv)
  qed
  have after_le: "\<forall>x\<in>set (drop off xs). f x \<le> 0"
  proof
    fix x assume "x \<in> set (drop off xs)"
    then obtain k where k: "k < length xs - off" "x = xs ! (off + k)"
      by (auto simp: in_set_conv_nth)
    then have "f (xs ! (off + k)) \<le> f (xs ! off)"
      using sorted_cmp_nth [OF srt, of off "off + k"] by simp
    with k off(2) show "f x \<le> 0" by simp
  qed
  have "sorted_wrt (\<lambda>a b. f b \<le> f a) (drop off xs)"
    using srt by (rule sorted_wrt_drop)
  from filter_zero_takeWhile [OF this after_le]
  have after: "filter (\<lambda>x. f x = 0) (drop off xs) = takeWhile (\<lambda>x. f x = 0) (drop off xs)" .
  have "filter (\<lambda>x. f x = 0) xs =
        filter (\<lambda>x. f x = 0) (take off xs) @ filter (\<lambda>x. f x = 0) (drop off xs)"
    by (metis append_take_drop_id filter_append)
  with before after show ?thesis by simp
qed


lemma first_dev_ascending:
  assumes asc: "bus_ascending bus"
  shows "(case kvm_io_bus_get_first_dev bus addr len of
            Inl e \<Rightarrow> e = ENOENT \<and>
                     (\<forall>r\<in>set (io_range bus). kvm_io_bus_sort_cmp (io_access addr len) r \<noteq> 0)
          | Inr off \<Rightarrow> off < length (io_range bus) \<and>
                     kvm_io_bus_sort_cmp (io_access addr len) (io_range bus ! off) = 0 \<and>
                     (\<forall>i<off. kvm_io_bus_sort_cmp (io_access addr len) (io_range bus ! i) \<noteq> 0) \<and>
                     filter (\<lambda>r. kvm_io_bus_sort_cmp (io_access addr len) r = 0) (io_range bus) =
                       takeWhile (\<lambda>r. kvm_io_bus_sort_cmp (io_access addr len) r = 0)
                         (drop off (io_range bus)))"
proof -
  define key where "key = io_access addr len"
  define rs where "rs = io_range bus"
  have n: "dev_count bus = length rs" using asc by (simp add: bus_ascending_def rs_def)
  have srt: "sorted_wrt (\<lambda>a b. kvm_io_bus_sort_cmp key b \<le> kvm_io_bus_sort_cmp key a) rs"
    using ascending_cmp_sorted [OF asc] by (simp add: rs_def)
  show ?thesis
  proof (cases "bsearch_from key rs kvm_io_bus_sort_cmp 0 (length rs)")
    case None
    from bsearch_from_complete [OF srt _ _ _ None]
    have "\<forall>i<length rs. kvm_io_bus_sort_cmp key (rs ! i) \<noteq> 0" by simp
    then have "\<forall>r\<in>set rs. kvm_io_bus_sort_cmp key r \<noteq> 0"
      by (auto simp: in_set_conv_nth)
    with None n show ?thesis
      by (simp add: kvm_io_bus_get_first_dev_def bsearch_def Let_def key_def rs_def
          io_access_def)
  next
    case (Some m)
    from bsearch_from_sound [OF Some]
    have m: "m < length rs" "kvm_io_bus_sort_cmp key (rs ! m) = 0" by simp_all
    define off where "off = first_dev_back key rs m"
    from first_dev_back_props [OF m(2)]
    have o: "off \<le> m" "kvm_io_bus_sort_cmp key (rs ! off) = 0"
      "off = 0 \<or> kvm_io_bus_sort_cmp key (rs ! (off - 1)) \<noteq> 0"
      by (auto simp: off_def)
    from o(1) m(1) have ol: "off < length rs" by simp
    have least: "kvm_io_bus_sort_cmp key (rs ! i) \<noteq> 0" if "i < off" for i
    proof -
      from that o(3) have nz: "kvm_io_bus_sort_cmp key (rs ! (off - 1)) \<noteq> 0" by auto
      have "kvm_io_bus_sort_cmp key (rs ! off) \<le> kvm_io_bus_sort_cmp key (rs ! (off - 1))"
        using sorted_cmp_nth [OF srt, of "off - 1" off] ol by simp
      with nz o(2) have "0 < kvm_io_bus_sort_cmp key (rs ! (off - 1))" by simp
      moreover have "kvm_io_bus_sort_cmp key (rs ! (off - 1)) \<le> kvm_io_bus_sort_cmp key (rs ! i)"
        using sorted_cmp_nth [OF srt, of i "off - 1"] that ol by simp
      ultimately show ?thesis by simp
    qed
    have f: "filter (\<lambda>r. kvm_io_bus_sort_cmp key r = 0) rs =
             takeWhile (\<lambda>r. kvm_io_bus_sort_cmp key r = 0) (drop off rs)"
      by (rule filter_from_first_zero [OF srt ol o(2) o(3)])
    have "kvm_io_bus_get_first_dev bus addr len = Inr off"
      using Some n
      by (simp add: kvm_io_bus_get_first_dev_def bsearch_def Let_def key_def rs_def
          io_access_def off_def)
    with ol o(2) least f show ?thesis
      by (simp add: key_def rs_def)
  qed
qed

lemma dispatch_ascending:
  assumes asc: "bus_ascending bus"
  shows "kvm_io_bus_offer h bus addr len
           (case kvm_io_bus_get_first_dev bus addr len of Inl e \<Rightarrow> dev_count bus | Inr off \<Rightarrow> off)
         = dispatch_spec h bus addr len"
proof -
  have n: "dev_count bus = length (io_range bus)" using asc by (simp add: bus_ascending_def)
  show ?thesis
    using first_dev_ascending [OF asc, of addr len] offer_as_takeWhile [OF n, of h addr len]
    by (auto simp: dispatch_spec_def n filter_empty_conv split: sum.splits)
qed

lemma write_ascending:
  assumes asc: "bus_ascending bus"
  shows "kvm_io_bus_write h bus addr len = dispatch_spec h bus addr len"
proof (cases "kvm_io_bus_get_first_dev bus addr len")
  case (Inl e)
  with first_dev_ascending [OF asc, of addr len]
  have "filter (\<lambda>r. kvm_io_bus_sort_cmp (io_access addr len) r = 0) (io_range bus) = []"
    by (auto simp: filter_empty_conv)
  with Inl show ?thesis by (simp add: kvm_io_bus_write_def dispatch_spec_def)
next
  case (Inr off)
  with dispatch_ascending [OF asc, of h addr len] show ?thesis
    by (simp add: kvm_io_bus_write_def)
qed

lemma offer_in_order_result:
  "fst (offer_in_order h addr len rs) =
     (if \<exists>r\<in>set rs. h (io_dev r) addr len = None then None else Some EOPNOTSUPP) \<and>
   snd (offer_in_order h addr len rs) =
     map io_dev (take (Suc (length (takeWhile (\<lambda>r. h (io_dev r) addr len \<noteq> None) rs))) rs)"
  by (induction rs) (auto split: prod.splits)

text \<open>
  C5, as the claim states it, fails on a table with a range inside another. On
  \<open>bus_nested\<close> the table is sorted under the comparator, and the access at 30 of length 4
  compares equal to the first range (0 to 100), whose device would handle it; but the
  binary search probes the second range (10 to 15), against which the access compares
  greater, and finds nothing: the first equal range is not located, the access is
  offered to no device and the dispatch returns unhandled, for a write and for a read.
\<close>

theorem nested_range_not_located:
  "dev_count bus_nested = length (io_range bus_nested)
   \<and> sorted_wrt (\<lambda>a b. kvm_io_bus_sort_cmp a b \<le> 0) (io_range bus_nested)
   \<and> kvm_io_bus_sort_cmp (io_access 30 4) (io_range bus_nested ! 0) = 0
   \<and> accepts_all (io_dev (io_range bus_nested ! 0)) 30 4 = None
   \<and> kvm_io_bus_get_first_dev bus_nested 30 4 = Inl ENOENT
   \<and> kvm_io_bus_write accepts_all bus_nested 30 4 = (Some EOPNOTSUPP, [])
   \<and> kvm_io_bus_read accepts_all bus_nested 30 4 = (Some EOPNOTSUPP, [])
   \<and> dispatch_spec accepts_all bus_nested 30 4 = (None, [1])"
  by (simp add: io_defs bsearch_from.simps)

text \<open>
  C5, amended. On a bus whose ranges ascend in both start and end (no range lies inside
  one that starts earlier; non-overlapping ranges are such), a read or write at
  (address, length) is dispatched as the spec says: the binary search and the steps back
  locate the first range of the table that compares equal to the access, every range
  that compares equal follows it without a gap, and the access is offered to their
  devices in table order until one handles it; the result is unhandled
  (\<^verbatim>\<open>-EOPNOTSUPP\<close>) exactly when no range compares equal or every such device declines.
\<close>

theorem dispatch_on_ascending_bus:
  assumes "bus_ascending bus"
  shows "kvm_io_bus_write h bus addr len = dispatch_spec h bus addr len
   \<and> kvm_io_bus_read h bus addr len = dispatch_spec h bus addr len
   \<and> (case kvm_io_bus_get_first_dev bus addr len of
         Inl e \<Rightarrow> e = ENOENT \<and>
                  (\<forall>r\<in>set (io_range bus). kvm_io_bus_sort_cmp (io_access addr len) r \<noteq> 0)
       | Inr off \<Rightarrow> off < length (io_range bus) \<and>
                  kvm_io_bus_sort_cmp (io_access addr len) (io_range bus ! off) = 0 \<and>
                  (\<forall>i<off. kvm_io_bus_sort_cmp (io_access addr len) (io_range bus ! i) \<noteq> 0) \<and>
                  filter (\<lambda>r. kvm_io_bus_sort_cmp (io_access addr len) r = 0) (io_range bus) =
                    takeWhile (\<lambda>r. kvm_io_bus_sort_cmp (io_access addr len) r = 0)
                      (drop off (io_range bus)))
   \<and> fst (kvm_io_bus_write h bus addr len) =
       (if \<exists>r\<in>set (io_range bus). kvm_io_bus_sort_cmp (io_access addr len) r = 0 \<and>
              h (io_dev r) addr len = None
        then None else Some EOPNOTSUPP)"
proof -
  have w: "kvm_io_bus_write h bus addr len = dispatch_spec h bus addr len"
    by (rule write_ascending [OF assms])
  have r: "kvm_io_bus_read h bus addr len = kvm_io_bus_write h bus addr len"
    by (simp add: kvm_io_bus_read_def kvm_io_bus_write_def)
  have f: "fst (dispatch_spec h bus addr len) =
       (if \<exists>r\<in>set (io_range bus). kvm_io_bus_sort_cmp (io_access addr len) r = 0 \<and>
              h (io_dev r) addr len = None
        then None else Some EOPNOTSUPP)"
    using offer_in_order_result [of h addr len
        "filter (\<lambda>r. kvm_io_bus_sort_cmp (io_access addr len) r = 0) (io_range bus)"]
    by (auto simp: dispatch_spec_def)
  from w r f first_dev_ascending [OF assms, of addr len] show ?thesis by simp
qed

theorem dispatch_on_ascending_bus_witness:
  "bus_ascending bus_layered
   \<and> kvm_io_bus_get_first_dev bus_layered 4108 4 = Inr 0
   \<and> kvm_io_bus_read (only_dev 2) bus_layered 4108 4 = (None, [1, 2])
   \<and> kvm_io_bus_read declines_all bus_layered 4108 4 = (Some EOPNOTSUPP, [1, 2])
   \<and> kvm_io_bus_write accepts_all bus_layered 4108 4 = (None, [1])
   \<and> kvm_io_bus_read accepts_all bus_layered 8192 4 = (Some EOPNOTSUPP, [])"
proof -
  have a: "bus_ascending bus_layered" by (simp add: io_defs)
  have d: "dispatch_spec (only_dev 2) bus_layered 4108 4 = (None, [1, 2])"
    "dispatch_spec declines_all bus_layered 4108 4 = (Some EOPNOTSUPP, [1, 2])"
    "dispatch_spec accepts_all bus_layered 4108 4 = (None, [1])"
    "dispatch_spec accepts_all bus_layered 8192 4 = (Some EOPNOTSUPP, [])"
    by (simp_all add: io_defs)
  have g: "kvm_io_bus_get_first_dev bus_layered 4108 4 = Inr 0"
    by (simp add: io_defs bsearch_from.simps)
  from dispatch_on_ascending_bus [OF a, of "only_dev 2" 4108 4]
    dispatch_on_ascending_bus [OF a, of declines_all 4108 4]
    dispatch_on_ascending_bus [OF a, of accepts_all 4108 4]
    dispatch_on_ascending_bus [OF a, of accepts_all 8192 4] a d g
  show ?thesis by simp
qed

section \<open>Invariants of the slot table\<close>

text \<open>
  The two conditions on tables that the overlap and dirty-log results assume are
  kept by every set-region request, whatever its outcome: the array stays sorted
  by decreasing size (it is re-sorted exactly when a size changes), and every
  slot's frame range stays inside the 64-bit frame space (base and size of a request
  are byte counts shifted right by twelve bits, so their sum is below \<open>2^53\<close>).
\<close>

lemma sorted_insert_cmp_memslot:
  "sorted_wrt (\<lambda>a b. npages b \<le> npages a) xs \<Longrightarrow>
     sorted_wrt (\<lambda>a b. npages b \<le> npages a) (insert_cmp cmp_memslot x xs)"
proof (induction xs)
  case Nil
  then show ?case by simp
next
  case (Cons y ys)
  show ?case
  proof (cases "cmp_memslot x y \<le> 0")
    case True
    then have "npages y \<le> npages x" by (auto simp: cmp_memslot_def split: if_splits)
    with Cons.prems True show ?thesis by auto
  next
    case False
    then have "npages x \<le> npages y" by (auto simp: cmp_memslot_def split: if_splits)
    with Cons False show ?thesis by (auto simp: set_insert_cmp)
  qed
qed

lemma sorted_sort_cmp_memslot:
  "sorted_wrt (\<lambda>a b. npages b \<le> npages a) (sort_cmp cmp_memslot xs)"
  by (induction xs) (simp_all add: sort_cmp_def sorted_insert_cmp_memslot)

lemma sorted_update_same_npages:
  assumes "sorted_wrt (\<lambda>a b. npages b \<le> npages a) xs" "i < length xs \<longrightarrow> npages v = npages (xs ! i)"
  shows "sorted_wrt (\<lambda>a b. npages b \<le> npages a) (xs[i := v])"
proof -
  have eq: "map npages (xs[i := v]) = map npages xs"
  proof (cases "i < length xs")
    case True
    with assms(2) have "(map npages xs)[i := npages v] = map npages xs"
      by (metis length_map list_update_id nth_map)
    then show ?thesis by (simp add: map_update)
  next
    case False
    then show ?thesis by (simp add: list_update_beyond)
  qed
  from assms(1) have "sorted_wrt (\<lambda>a b. b \<le> a) (map npages xs)"
    by (simp add: sorted_wrt_map)
  then have "sorted_wrt (\<lambda>a b. b \<le> a) (map npages (xs[i := v]))"
    by (simp only: eq)
  then show ?thesis
    by (simp only: sorted_wrt_map)
qed

lemma update_memslots_sorted:
  assumes "sorted_by_size slots"
  shows "sorted_by_size (update_memslots cfg slots new g)"
proof (cases new)
  case None
  with assms show ?thesis by (simp add: update_memslots_def sorted_by_size_def)
next
  case (Some n)
  show ?thesis
  proof (cases "npages n \<noteq> npages (memslots slots ! (id_to_index slots ! id_slot n))")
    case True
    with Some show ?thesis
      by (simp add: update_memslots_def sort_memslots_def Let_def sorted_by_size_def
          sorted_sort_cmp_memslot)
  next
    case False
    with Some assms show ?thesis
      by (simp add: update_memslots_def Let_def sorted_by_size_def sorted_update_same_npages)
  qed
qed

lemma mark_slot_invalid_sorted:
  "sorted_by_size kvm \<Longrightarrow> sorted_by_size (mark_slot_invalid kvm i)"
  by (simp add: mark_slot_invalid_def Let_def sorted_by_size_def sorted_update_same_npages)

lemma set_region_apply_sorted:
  assumes "sorted_by_size kvm"
  shows "sorted_by_size (snd (set_region_apply cfg env kvm mem new change))"
  using assms mark_slot_invalid_sorted [OF assms, of "unat (slot mem)"]
  by (auto simp: set_region_apply_def install_new_memslots_def Let_def
      intro!: update_memslots_sorted split: option.splits prod.splits)

lemma set_region_sorted:
  assumes "sorted_by_size kvm"
  shows "sorted_by_size (snd (kvm_set_memory_region' cfg env kvm mem))"
  using assms set_region_apply_sorted [OF assms]
  by (auto simp: kvm_set_memory_region'_def split: option.splits sum.splits)

lemma update_memslots_fit:
  assumes "ranges_fit slots"
      and "case new of None \<Rightarrow> True | Some n \<Rightarrow> unat (base_gfn n) + unat (npages n) < 2 ^ 64"
  shows "ranges_fit (update_memslots cfg slots new g)"
  using assms set_update_memslots [of cfg slots new g]
  by (auto simp: ranges_fit_def list_all_iff split: option.splits)

lemma mark_slot_invalid_fit:
  assumes "ranges_fit kvm"
  shows "ranges_fit (mark_slot_invalid kvm i)"
proof (cases "id_to_index kvm ! i < length (memslots kvm)")
  case True
  define old where "old = memslots kvm ! (id_to_index kvm ! i)"
  define v where "v = old\<lparr>flags := flags old OR KVM_MEMSLOT_INVALID\<rparr>"
  from True have "old \<in> set (memslots kvm)" by (simp add: old_def)
  with assms have v: "unat (base_gfn v) + unat (npages v) < 2 ^ 64"
    by (simp add: ranges_fit_def list_all_iff v_def)
  have "set ((memslots kvm)[id_to_index kvm ! i := v]) \<subseteq> insert v (set (memslots kvm))"
    by (rule set_update_subset_insert)
  with assms v have "\<forall>s\<in>set ((memslots kvm)[id_to_index kvm ! i := v]).
      unat (base_gfn s) + unat (npages s) < 2 ^ 64"
    by (auto simp: ranges_fit_def list_all_iff)
  then show ?thesis
    by (simp add: ranges_fit_def mark_slot_invalid_def Let_def list_all_iff v_def old_def)
next
  case False
  then have "(memslots kvm)[id_to_index kvm ! i := x] = memslots kvm" for x
    by (simp add: list_update_beyond)
  with assms show ?thesis
    by (simp add: ranges_fit_def mark_slot_invalid_def Let_def)
qed

lemma generation_update_fit [simp]:
  "ranges_fit (kvm\<lparr>generation := g\<rparr>) = ranges_fit kvm"
  by (simp add: ranges_fit_def)

lemma set_region_apply_fit:
  assumes "ranges_fit kvm" "unat (base_gfn new) + unat (npages new) < 2 ^ 64"
  shows "ranges_fit (snd (set_region_apply cfg env kvm mem new change))"
  using assms mark_slot_invalid_fit [OF assms(1), of "unat (slot mem)"]
  by (auto simp: set_region_apply_def install_new_memslots_def Let_def
      intro!: update_memslots_fit split: option.splits prod.splits)

lemma set_region_fit:
  assumes "ranges_fit kvm"
  shows "ranges_fit (snd (kvm_set_memory_region' cfg env kvm mem))"
proof -
  have "unat (base_gfn (candidate_slot kvm mem)) + unat (npages (candidate_slot kvm mem)) < 2 ^ 64"
    using region_range_fits [of mem] by (simp add: candidate_slot_def Let_def)
  from set_region_apply_fit [OF assms this] assms show ?thesis
    by (auto simp: kvm_set_memory_region'_def split: option.splits sum.splits)
qed

end
